theory Spec2Isabelle
  imports Main
begin

section \<open>Exceptions and string primitives\<close>

text \<open>
  The exceptions the exporter's own statements raise: \<open>KeyError\<close> with the missing
  key, from a subscript \<^verbatim>\<open>d[key]\<close>, and \<open>AttributeError\<close>, from
  \<^verbatim>\<open>re.search(...).group(1)\<close> when the search finds nothing. No handler of the
  exporter catches them.
\<close>

datatype exn = KeyError string | AttributeError

text \<open>
  A request to the video API, \<^verbatim>\<open>....execute()\<close>: it returns the response or raises
  \<open>HttpError\<close>, which carries the text the handlers put into their message.
\<close>

datatype 'a api_result = Raises_HttpError string | Returns 'a

text \<open>
  \<^verbatim>\<open>s.replace(old, new)\<close> for a non-empty \<open>old\<close>: occurrences are replaced left to
  right without overlap. The source uses it with \<open>old = 'PT'\<close> and \<open>old = '\n'\<close> only.
\<close>

function str_replace :: "string \<Rightarrow> string \<Rightarrow> string \<Rightarrow> string" where
  "str_replace old new [] = []"
| "str_replace old new (c # cs) =
     (if old \<noteq> [] \<and> take (length old) (c # cs) = old
      then new @ str_replace old new (drop (length old) (c # cs))
      else c # str_replace old new cs)"
  by pat_completeness auto
termination
  by (relation "measure (\<lambda>(old, new, s). length s)") (auto simp: neq_Nil_conv)

text \<open>\<^verbatim>\<open>sep.join(xs)\<close>.\<close>

fun str_join :: "string \<Rightarrow> string list \<Rightarrow> string" where
  "str_join sep [] = []"
| "str_join sep [x] = x"
| "str_join sep (x # y # ys) = x @ sep @ str_join sep (y # ys)"

definition is_digit :: "char \<Rightarrow> bool" where
  "is_digit c = (c \<in> set ''0123456789'')"

text \<open>\<^verbatim>\<open>int(ds)\<close> on a string of decimal digits.\<close>

definition digit_val :: "char \<Rightarrow> int" where
  "digit_val c = int (of_char c) - 48"

definition py_int :: "string \<Rightarrow> int" where
  "py_int ds = foldl (\<lambda>a d. 10 * a + digit_val d) 0 ds"

text \<open>
  \<^verbatim>\<open>re.search(r'(\d+)<m>', s)\<close> for a marker character \<open>m\<close> that is not a digit: the
  leftmost position at which a run of digits, taken greedily, is directly followed by
  \<open>m\<close>; the result is group 1, the run. Giving digits back cannot help, since the
  character after a shorter run is a digit. \<open>None\<close> is Python's \<^verbatim>\<open>None\<close>.
\<close>

fun re_search_num :: "char \<Rightarrow> string \<Rightarrow> string option" where
  "re_search_num m [] = None"
| "re_search_num m (c # cs) =
     (let ds = takeWhile is_digit (c # cs); rest = dropWhile is_digit (c # cs)
      in if ds \<noteq> [] \<and> (case rest of [] \<Rightarrow> False | r # _ \<Rightarrow> r = m)
         then Some ds
         else re_search_num m cs)"

section \<open>Duration parser\<close>

text \<open>
  \<^verbatim>\<open>_parse_duration\<close>: strip every \<open>PT\<close>, then run the three blocks
  \<^verbatim>\<open>if 'H' in duration: ...\<close>, \<^verbatim>\<open>if 'M' in duration: ...\<close>,
  \<^verbatim>\<open>if 'S' in duration: ...\<close> in this order. \<open>add_component\<close> is one such block:
  when the marker occurs, the number found in front of it is scaled and added to
  \<open>total_seconds\<close>; \<^verbatim>\<open>.group(1)\<close> on a failed search raises.
\<close>

definition add_component :: "char \<Rightarrow> int \<Rightarrow> string \<Rightarrow> int \<Rightarrow> exn + int" where
  "add_component m scale duration total_seconds =
     (if m \<in> set duration
      then (case re_search_num m duration of
              None \<Rightarrow> Inl AttributeError
            | Some g \<Rightarrow> Inr (total_seconds + py_int g * scale))
      else Inr total_seconds)"

definition parse_duration :: "string \<Rightarrow> exn + int" where
  "parse_duration duration0 =
     (let duration = str_replace ''PT'' '''' duration0;
          total_seconds = 0
      in (case add_component (CHR ''H'') 3600 duration total_seconds of
            Inl e \<Rightarrow> Inl e
          | Inr total_seconds \<Rightarrow>
         (case add_component (CHR ''M'') 60 duration total_seconds of
            Inl e \<Rightarrow> Inl e
          | Inr total_seconds \<Rightarrow>
         (case add_component (CHR ''S'') 1 duration total_seconds of
            Inl e \<Rightarrow> Inl e
          | Inr total_seconds \<Rightarrow> Inr total_seconds))))"

text \<open>
  A duration token \<open>PT[nH][nM][nS]\<close>: each component is absent or a non-empty string
  of digits followed by its marker.
\<close>

definition is_number :: "string \<Rightarrow> bool" where
  "is_number ds = (ds \<noteq> [] \<and> list_all is_digit ds)"

fun component :: "string option \<Rightarrow> char \<Rightarrow> string" where
  "component None m = []"
| "component (Some ds) m = ds @ [m]"

fun component_ok :: "string option \<Rightarrow> bool" where
  "component_ok None = True"
| "component_ok (Some ds) = is_number ds"

fun component_val :: "string option \<Rightarrow> int" where
  "component_val None = 0"
| "component_val (Some ds) = py_int ds"

definition duration_token :: "string option \<Rightarrow> string option \<Rightarrow> string option \<Rightarrow> string" where
  "duration_token h m s =
     ''PT'' @ component h (CHR ''H'') @ component m (CHR ''M'') @ component s (CHR ''S'')"


section \<open>Payloads of the video API\<close>

text \<open>
  The JSON objects the exporter reads, one record per object and one optional field per
  key the code looks up: \<open>None\<close> is a key that is absent. A field that is present has
  the type the API documents for it. The field names are the keys, prefixed with the
  object they belong to.
\<close>

record snippet_json =
  snippet_title :: "string option"
  snippet_publishedAt :: "string option"
  snippet_tags :: "string list option"
  snippet_description :: "string option"

record statistics_json =
  statistics_viewCount :: "string option"
  statistics_likeCount :: "string option"
  statistics_commentCount :: "string option"

record content_details_json =
  contentDetails_duration :: "string option"

record video_json =
  video_json_id :: "string option"
  video_json_snippet :: "snippet_json option"
  video_json_statistics :: "statistics_json option"
  video_json_contentDetails :: "content_details_json option"

text \<open>The dictionary \<^verbatim>\<open>_process_video_data\<close> returns: its twelve keys, in the order written.\<close>

record video_record =
  title :: string
  video_id :: string
  url :: string
  view_count :: string
  like_count :: string
  comment_count :: string
  publish_date :: string
  duration_seconds :: int
  description :: string
  tags :: string
  transcript :: string
  content :: string

text \<open>\<^verbatim>\<open>d[key]\<close> raises \<open>KeyError\<close> on an absent key; \<^verbatim>\<open>d.get(key, default)\<close> does not.\<close>

definition subscript :: "'a option \<Rightarrow> string \<Rightarrow> exn + 'a" where
  "subscript field key = (case field of None \<Rightarrow> Inl (KeyError key) | Some v \<Rightarrow> Inr v)"

definition get_default :: "'a option \<Rightarrow> 'a \<Rightarrow> 'a" where
  "get_default field dflt = (case field of None \<Rightarrow> dflt | Some v \<Rightarrow> v)"

section \<open>Flattening a details payload\<close>

text \<open>
  \<^verbatim>\<open>_process_video_data\<close>, statement by statement; the first lookup that fails
  decides the exception. \<^verbatim>\<open>snippet.get('tags')\<close> is falsy when the key is absent and
  when the list is empty.
\<close>

definition process_video_data :: "video_json \<Rightarrow> exn + video_record" where
  "process_video_data video =
     (case subscript (video_json_snippet video) ''snippet'' of Inl e \<Rightarrow> Inl e | Inr snippet \<Rightarrow>
     (case subscript (video_json_statistics video) ''statistics'' of Inl e \<Rightarrow> Inl e | Inr statistics \<Rightarrow>
     (case subscript (video_json_contentDetails video) ''contentDetails'' of Inl e \<Rightarrow> Inl e | Inr content_details \<Rightarrow>
     (case subscript (contentDetails_duration content_details) ''duration'' of Inl e \<Rightarrow> Inl e | Inr d \<Rightarrow>
     (case parse_duration d of Inl e \<Rightarrow> Inl e | Inr duration \<Rightarrow>
     (case subscript (snippet_publishedAt snippet) ''publishedAt'' of Inl e \<Rightarrow> Inl e | Inr published \<Rightarrow>
     (let publish_date = take 10 published;
          tags = (if snippet_tags snippet \<noteq> None \<and> snippet_tags snippet \<noteq> Some []
                  then str_join '','' (get_default (snippet_tags snippet) [])
                  else '''');
          description = str_replace [CHR 0x0A] '' '' (get_default (snippet_description snippet) '''');
          transcript = description
      in
     (case subscript (snippet_title snippet) ''title'' of Inl e \<Rightarrow> Inl e | Inr the_title \<Rightarrow>
     (case subscript (video_json_id video) ''id'' of Inl e \<Rightarrow> Inl e | Inr the_id \<Rightarrow>
        Inr \<lparr> title = the_title,
              video_id = the_id,
              url = ''https://www.youtube.com/watch?v='' @ the_id,
              view_count = get_default (statistics_viewCount statistics) ''0'',
              like_count = get_default (statistics_likeCount statistics) ''0'',
              comment_count = get_default (statistics_commentCount statistics) ''0'',
              publish_date = publish_date,
              duration_seconds = duration,
              description = description,
              tags = tags,
              transcript = transcript,
              content = description \<rparr>)))))))))"

text \<open>
  The keys \<^verbatim>\<open>_process_video_data\<close> reads by subscript, and a duration that parses: what
  a payload needs for the flattening to return.
\<close>

definition required_present :: "video_json \<Rightarrow> bool" where
  "required_present video =
     ((case video_json_snippet video of
         None \<Rightarrow> False
       | Some sn \<Rightarrow> snippet_title sn \<noteq> None \<and> snippet_publishedAt sn \<noteq> None)
      \<and> video_json_statistics video \<noteq> None
      \<and> (case video_json_contentDetails video of
            None \<Rightarrow> False
          | Some cd \<Rightarrow>
              (case contentDetails_duration cd of
                 None \<Rightarrow> False
               | Some d \<Rightarrow> (case parse_duration d of Inl e \<Rightarrow> False | Inr n \<Rightarrow> True)))
      \<and> video_json_id video \<noteq> None)"

text \<open>A payload without \<open>likeCount\<close>, and the record it is flattened to.\<close>

definition sample_video :: video_json where
  "sample_video =
     \<lparr> video_json_id = Some ''dQw4w9WgXcQ'',
       video_json_snippet = Some \<lparr> snippet_title = Some ''A title'',
                                  snippet_publishedAt = Some ''2024-01-02T03:04:05Z'',
                                  snippet_tags = Some [''a'', ''b''],
                                  snippet_description = Some [CHR ''x'', CHR 0x0A, CHR ''y''] \<rparr>,
       video_json_statistics = Some \<lparr> statistics_viewCount = Some ''10'',
                                     statistics_likeCount = None,
                                     statistics_commentCount = Some ''3'' \<rparr>,
       video_json_contentDetails = Some \<lparr> contentDetails_duration = Some ''PT1H2M3S'' \<rparr> \<rparr>"

definition sample_record :: video_record where
  "sample_record =
     \<lparr> title = ''A title'', video_id = ''dQw4w9WgXcQ'',
       url = ''https://www.youtube.com/watch?v=dQw4w9WgXcQ'',
       view_count = ''10'', like_count = ''0'', comment_count = ''3'',
       publish_date = ''2024-01-02'', duration_seconds = 3723,
       description = ''x y'', tags = ''a,b'', transcript = ''x y'', content = ''x y'' \<rparr>"

section \<open>Collecting the video identifiers of a channel\<close>

text \<open>
  A page of search results: the \<open>items\<close> key (absent, or a list of items) and the
  \<open>nextPageToken\<close> key. Of an item the code reads \<^verbatim>\<open>item['id']['videoId']\<close>.
\<close>

record resource_id_json =
  resource_videoId :: "string option"

record search_item_json =
  search_item_id :: "resource_id_json option"

record search_response =
  search_items :: "search_item_json list option"
  search_nextPageToken :: "string option"

text \<open>
  The search endpoint is the environment. A request is its ordinal in the run (the same
  arguments may be answered differently the second time), the channel, \<open>maxResults\<close>
  and the page token.
\<close>

type_synonym search_api =
  "nat \<Rightarrow> string \<Rightarrow> int \<Rightarrow> string option \<Rightarrow> search_response api_result"

text \<open>What the exporter shows through \<^verbatim>\<open>st.error\<close> and \<^verbatim>\<open>st.warning\<close>, with the
  value interpolated into the text.\<close>

datatype message =
    Error_getting_channel_videos string
  | Warning_no_videos_found string
  | Error_getting_video_details string
  | Warning_no_video_details "string list"

text \<open>The \<^verbatim>\<open>for item in search_response['items']\<close> loop: the identifiers, or the first
  \<open>KeyError\<close>.\<close>

fun extract_ids :: "search_item_json list \<Rightarrow> exn + string list" where
  "extract_ids [] = Inr []"
| "extract_ids (item # rest) =
     (case subscript (search_item_id item) ''id'' of Inl e \<Rightarrow> Inl e | Inr rid \<Rightarrow>
     (case subscript (resource_videoId rid) ''videoId'' of Inl e \<Rightarrow> Inl e | Inr v \<Rightarrow>
     (case extract_ids rest of Inl e \<Rightarrow> Inl e | Inr vs \<Rightarrow> Inr (v # vs))))"

lemma extract_ids_length: "extract_ids its = Inr vs \<Longrightarrow> length vs = length its"
  by (induction its arbitrary: vs) (auto split: sum.splits)

text \<open>How a loop that runs inside \<^verbatim>\<open>try ... except HttpError\<close> ends: by itself, by
  an \<open>HttpError\<close> of a request, or by an exception that the handler does not catch.\<close>

datatype loop_end = Loop_done | Loop_HttpError string | Loop_raised exn

text \<open>
  The \<^verbatim>\<open>while len(video_ids) < max_results\<close> loop of \<^verbatim>\<open>get_channel_videos\<close>. Its
  state is the accumulator, the page token and the number of requests made; it ends
  with the messages shown, the accumulator, and the way it ended. A page that adds
  nothing ends the loop, so every iteration that loops back has made the accumulator
  longer.
\<close>

function collect_loop ::
  "search_api \<Rightarrow> string \<Rightarrow> int \<Rightarrow> nat \<Rightarrow> string list \<Rightarrow> string option
     \<Rightarrow> message list \<times> string list \<times> loop_end" where
  "collect_loop api channel_id max_results n video_ids next_page_token =
     (if int (length video_ids) < max_results then
        (let remaining = max_results - int (length video_ids);
             request_max = min 50 remaining
         in case api n channel_id request_max next_page_token of
              Raises_HttpError e \<Rightarrow> ([], video_ids, Loop_HttpError e)
            | Returns search_response \<Rightarrow>
                (case search_items search_response of
                   None \<Rightarrow> ([Warning_no_videos_found channel_id], video_ids, Loop_done)
                 | Some [] \<Rightarrow> ([Warning_no_videos_found channel_id], video_ids, Loop_done)
                 | Some (item # rest) \<Rightarrow>
                     (case extract_ids (item # rest) of
                        Inl e \<Rightarrow> ([], video_ids, Loop_raised e)
                      | Inr new_ids \<Rightarrow>
                          (case search_nextPageToken search_response of
                             None \<Rightarrow> ([], video_ids @ new_ids, Loop_done)
                           | Some tok \<Rightarrow>
                               if tok = [] then ([], video_ids @ new_ids, Loop_done)
                               else collect_loop api channel_id max_results (Suc n)
                                      (video_ids @ new_ids) (Some tok)))))
      else ([], video_ids, Loop_done))"
  by pat_completeness auto
termination
  by (relation "measure (\<lambda>(api, channel_id, max_results, n, video_ids, tok).
                   nat (max_results - int (length video_ids)))")
     (auto simp del: extract_ids.simps dest: extract_ids_length)

declare collect_loop.simps [simp del]

text \<open>\<^verbatim>\<open>xs[:n]\<close>: a negative \<open>n\<close> counts from the end.\<close>

definition slice_to :: "'a list \<Rightarrow> int \<Rightarrow> 'a list" where
  "slice_to xs n = (if 0 \<le> n then take (nat n) xs else take (length xs - nat (- n)) xs)"

text \<open>
  \<^verbatim>\<open>get_channel_videos\<close>: the loop inside \<^verbatim>\<open>try\<close>; an \<open>HttpError\<close> is caught and
  reported and the slice of the accumulator is returned, as it is when the loop ends by
  itself; any other exception leaves the function.
\<close>

definition get_channel_videos ::
  "search_api \<Rightarrow> string \<Rightarrow> int \<Rightarrow> message list \<times> (exn + string list)" where
  "get_channel_videos api channel_id max_results =
     (case collect_loop api channel_id max_results 0 [] None of
        (msgs, video_ids, Loop_done) \<Rightarrow> (msgs, Inr (slice_to video_ids max_results))
      | (msgs, video_ids, Loop_HttpError e) \<Rightarrow>
          (msgs @ [Error_getting_channel_videos e], Inr (slice_to video_ids max_results))
      | (msgs, video_ids, Loop_raised e) \<Rightarrow> (msgs, Inl e))"

text \<open>
  A channel whose public videos are \<open>vids\<close>, newest first, served without errors: a
  request gets the next \<open>maxResults\<close> videos after the position its token stands for,
  and a token for the following page when videos remain. The token for position \<open>k\<close>
  is a string of length \<open>k\<close>; the first request carries no token.
\<close>

definition search_item_of :: "string \<Rightarrow> search_item_json" where
  "search_item_of v = \<lparr> search_item_id = Some \<lparr> resource_videoId = Some v \<rparr> \<rparr>"

definition paged_search :: "string list \<Rightarrow> search_api" where
  "paged_search vids n channel_id request_max tok =
     (let pos = (case tok of None \<Rightarrow> 0 | Some t \<Rightarrow> length t);
          page = take (nat request_max) (drop pos vids)
      in Returns \<lparr> search_items = Some (map search_item_of page),
                   search_nextPageToken =
                     (if pos + length page < length vids
                      then Some (replicate (pos + length page) (CHR ''x''))
                      else None) \<rparr>)"

text \<open>
  The same channel served without errors in pages of the server's choosing: the answer
  to request number \<open>n\<close> has at most \<open>sizes n\<close> videos, and never more than
  \<open>maxResults\<close>; a token for the following page comes with it when videos remain.
  \<open>first_page_only\<close> serves one video in the first page and none in the later ones.
\<close>

definition paged_search_sized :: "(nat \<Rightarrow> nat) \<Rightarrow> string list \<Rightarrow> search_api" where
  "paged_search_sized sizes vids n channel_id request_max tok =
     (let pos = (case tok of None \<Rightarrow> 0 | Some t \<Rightarrow> length t);
          page = take (min (nat request_max) (sizes n)) (drop pos vids)
      in Returns \<lparr> search_items = Some (map search_item_of page),
                   search_nextPageToken =
                     (if pos + length page < length vids
                      then Some (replicate (pos + length page) (CHR ''x''))
                      else None) \<rparr>)"

definition first_page_only :: "nat \<Rightarrow> nat" where
  "first_page_only n = (if n = 0 then 1 else 0)"

text \<open>An endpoint that answers as \<open>api\<close> does, except that its request number \<open>k\<close>
  raises \<open>HttpError\<close>.\<close>

definition fails_at :: "nat \<Rightarrow> string \<Rightarrow> search_api \<Rightarrow> search_api" where
  "fails_at k e api n channel_id request_max tok =
     (if n = k then Raises_HttpError e else api n channel_id request_max tok)"

section \<open>Fetching the details of the videos\<close>

text \<open>The response of the details endpoint: the \<open>items\<close> key, absent or a list of payloads.\<close>

record videos_response =
  videos_items :: "video_json list option"

text \<open>
  The details endpoint: a request is its ordinal in the run and the \<open>id\<close> parameter,
  the identifiers of the batch joined by commas.
\<close>

type_synonym videos_api = "nat \<Rightarrow> string \<Rightarrow> videos_response api_result"

text \<open>\<^verbatim>\<open>range(start, stop, step)\<close> for a positive step.\<close>

function py_range :: "nat \<Rightarrow> nat \<Rightarrow> nat \<Rightarrow> nat list" where
  "py_range i stop step = (if i < stop \<and> 0 < step then i # py_range (i + step) stop step else [])"
  by pat_completeness auto
termination
  by (relation "measure (\<lambda>(i, stop, step). stop - i)") auto

declare py_range.simps [simp del]

text \<open>\<^verbatim>\<open>video_ids[i:i+50]\<close>.\<close>

definition batch_at :: "string list \<Rightarrow> nat \<Rightarrow> string list" where
  "batch_at video_ids i = take 50 (drop i video_ids)"

text \<open>The batches \<^verbatim>\<open>get_video_details\<close> forms, in the order of its loop.\<close>

definition batches :: "string list \<Rightarrow> string list list" where
  "batches video_ids = map (batch_at video_ids) (py_range 0 (length video_ids) 50)"

text \<open>
  The inner loop \<^verbatim>\<open>for video in videos_response['items']\<close>: each payload is flattened
  and appended; an exception of the flattening leaves the loop.
\<close>

fun process_items :: "video_json list \<Rightarrow> video_record list \<Rightarrow> exn + video_record list" where
  "process_items [] videos_data = Inr videos_data"
| "process_items (video # rest) videos_data =
     (case process_video_data video of
        Inl e \<Rightarrow> Inl e
      | Inr video_data \<Rightarrow> process_items rest (videos_data @ [video_data]))"

text \<open>
  What \<^verbatim>\<open>get_video_details\<close> has done so far: the requests issued (their \<open>id\<close>
  parameters, in order), the messages shown, and the list \<open>videos_data\<close>.
\<close>

record fetch_state =
  requests :: "string list"
  shown :: "message list"
  videos_data :: "video_record list"

text \<open>
  The loop \<^verbatim>\<open>for i in range(0, len(video_ids), 50)\<close> over the remaining indices. The
  \<^verbatim>\<open>try\<close> is inside the loop: an \<open>HttpError\<close> is reported and the loop goes on with
  the next batch; an exception of the flattening is not caught and ends the function.
\<close>

fun details_loop ::
  "videos_api \<Rightarrow> string list \<Rightarrow> nat list \<Rightarrow> fetch_state \<Rightarrow> fetch_state \<times> exn option" where
  "details_loop api video_ids [] st = (st, None)"
| "details_loop api video_ids (i # rest) st =
     (let batch_ids = batch_at video_ids i;
          request = str_join '','' batch_ids;
          st1 = st\<lparr>requests := requests st @ [request]\<rparr>
      in case api (length (requests st)) request of
           Raises_HttpError e \<Rightarrow>
             details_loop api video_ids rest
               (st1\<lparr>shown := shown st1 @ [Error_getting_video_details e]\<rparr>)
         | Returns videos_response \<Rightarrow>
             (case videos_items videos_response of
                None \<Rightarrow>
                  details_loop api video_ids rest
                    (st1\<lparr>shown := shown st1 @ [Warning_no_video_details batch_ids]\<rparr>)
              | Some [] \<Rightarrow>
                  details_loop api video_ids rest
                    (st1\<lparr>shown := shown st1 @ [Warning_no_video_details batch_ids]\<rparr>)
              | Some (video # videos) \<Rightarrow>
                  (case process_items (video # videos) (videos_data st1) of
                     Inl e \<Rightarrow> (st1, Some e)
                   | Inr vd \<Rightarrow> details_loop api video_ids rest (st1\<lparr>videos_data := vd\<rparr>))))"

text \<open>
  \<^verbatim>\<open>get_video_details\<close>: the requests issued, the messages shown, and the list returned
  or the exception raised.
\<close>

definition get_video_details ::
  "videos_api \<Rightarrow> string list \<Rightarrow> string list \<times> message list \<times> (exn + video_record list)" where
  "get_video_details api video_ids =
     (case details_loop api video_ids (py_range 0 (length video_ids) 50)
             \<lparr>requests = [], shown = [], videos_data = []\<rparr> of
        (st, None) \<Rightarrow> (requests st, shown st, Inr (videos_data st))
      | (st, Some e) \<Rightarrow> (requests st, shown st, Inl e))"

text \<open>
  What one batch contributes when nothing is raised, in the words of the description of
  the fetcher: a failed request gives the report of the error and no record; an answer
  gives the records of its items, or a warning when it has none.
\<close>

fun flattened :: "video_json list \<Rightarrow> video_record list" where
  "flattened [] = []"
| "flattened (video # rest) =
     (case process_video_data video of Inl e \<Rightarrow> flattened rest | Inr r \<Rightarrow> r # flattened rest)"

definition batch_records :: "videos_api \<Rightarrow> nat \<times> string list \<Rightarrow> video_record list" where
  "batch_records api kb =
     (case api (fst kb) (str_join '','' (snd kb)) of
        Raises_HttpError e \<Rightarrow> []
      | Returns r \<Rightarrow> (case videos_items r of None \<Rightarrow> [] | Some vs \<Rightarrow> flattened vs))"

definition batch_messages :: "videos_api \<Rightarrow> nat \<times> string list \<Rightarrow> message list" where
  "batch_messages api kb =
     (case api (fst kb) (str_join '','' (snd kb)) of
        Raises_HttpError e \<Rightarrow> [Error_getting_video_details e]
      | Returns r \<Rightarrow>
          (case videos_items r of
             None \<Rightarrow> [Warning_no_video_details (snd kb)]
           | Some [] \<Rightarrow> [Warning_no_video_details (snd kb)]
           | Some (v # vs) \<Rightarrow> []))"

section \<open>Finding the channel in the two entry points\<close>

text \<open>\<^verbatim>\<open>channel.startswith('UC') and len(channel) == 24\<close>.\<close>

definition is_channel_id :: "string \<Rightarrow> bool" where
  "is_channel_id channel = (take 2 channel = ''UC'' \<and> length channel = 24)"

text \<open>
  The step of \<^verbatim>\<open>run.py\<close>: the resolver \<^verbatim>\<open>get_channel_id_from_username\<close> is a
  parameter; the result is the list of arguments the resolver was called with, and the
  value of \<open>channel_id\<close>, \<open>None\<close> when the resolver found nothing.
\<close>

definition cli_find_channel ::
  "(string \<Rightarrow> string option) \<Rightarrow> string \<Rightarrow> string list \<times> string option" where
  "cli_find_channel get_channel_id_from_username channel =
     (if is_channel_id channel then ([], Some channel)
      else ([channel], get_channel_id_from_username channel))"

text \<open>
  The same step of the dashboard, from the press of the export button: an empty input
  is answered with \<^verbatim>\<open>Please enter a channel name or ID\<close> and the handler returns
  before the step.
\<close>

datatype dashboard_step = No_channel_entered | Channel_id "string option"

definition dashboard_find_channel ::
  "(string \<Rightarrow> string option) \<Rightarrow> string \<Rightarrow> string list \<times> dashboard_step" where
  "dashboard_find_channel get_channel_id_from_username channel_input =
     (if channel_input = [] then ([], No_channel_entered)
      else if is_channel_id channel_input then ([], Channel_id (Some channel_input))
      else ([channel_input], Channel_id (get_channel_id_from_username channel_input)))"

text \<open>A resolver that finds no channel, and a details endpoint whose first request
  raises \<open>HttpError\<close> and whose later requests return the sample payload.\<close>

definition no_channel_found :: "string \<Rightarrow> string option" where
  "no_channel_found username = None"

definition first_fails_api :: videos_api where
  "first_fails_api n request =
     (if n = 0 then Raises_HttpError ''quotaExceeded''
      else Returns \<lparr> videos_items = Some [sample_video] \<rparr>)"

text \<open>
  Three more details endpoints: one whose second request raises \<open>HttpError\<close> while
  the others return the sample payload; one that answers every request with a payload
  that has no \<open>statistics\<close>; and one whose first request returns the sample payload,
  whose second raises \<open>HttpError\<close> and whose later ones return the payload without
  \<open>statistics\<close>.
\<close>

definition second_fails_api :: videos_api where
  "second_fails_api n request =
     (if n = 1 then Raises_HttpError ''quotaExceeded''
      else Returns \<lparr> videos_items = Some [sample_video] \<rparr>)"

definition missing_statistics_api :: videos_api where
  "missing_statistics_api n request =
     Returns \<lparr> videos_items = Some [sample_video\<lparr>video_json_statistics := None\<rparr>] \<rparr>"

definition lost_records_api :: videos_api where
  "lost_records_api n request =
     (if n = 0 then Returns \<lparr> videos_items = Some [sample_video] \<rparr>
      else if n = 1 then Raises_HttpError ''quotaExceeded''
      else Returns \<lparr> videos_items = Some [sample_video\<lparr>video_json_statistics := None\<rparr>] \<rparr>)"

text \<open>
  An endpoint all of whose answers are made of payloads that have what the flattening
  requires; its requests may still raise \<open>HttpError\<close>.
\<close>

definition payloads_complete :: "videos_api \<Rightarrow> bool" where
  "payloads_complete api =
     (\<forall>n request r vs. api n request = Returns r \<longrightarrow> videos_items r = Some vs
        \<longrightarrow> list_all required_present vs)"

section \<open>Exporting the records as CSV\<close>

text \<open>
  \<^verbatim>\<open>export_to_csv\<close> hands the records to \<^verbatim>\<open>csv.DictWriter\<close> of the standard
  library, on a file opened with \<^verbatim>\<open>newline=''\<close>. The writer and the reader of that
  library are modelled here for the default dialect, the only one the exporter uses:
  delimiter \<open>,\<close>, quote character \<open>"\<close>, doubled quotes, minimal quoting, line
  terminator \<open>\r\n\<close>, not strict. The text of the file is a list of characters; the
  encoding to bytes and back is not modelled, and neither is the reader's limit on the
  size of a field.
\<close>

abbreviation LF :: char where "LF \<equiv> CHR 0x0A"
abbreviation CR :: char where "CR \<equiv> CHR 0x0D"
abbreviation delimiter :: char where "delimiter \<equiv> CHR '',''"
abbreviation quotechar :: char where "quotechar \<equiv> CHR 0x22"

definition fieldnames :: "string list" where
  "fieldnames = [''title'', ''video_id'', ''url'', ''view_count'', ''like_count'',
                 ''comment_count'', ''publish_date'', ''duration_seconds'',
                 ''description'', ''tags'', ''transcript'', ''content'']"

text \<open>
  \<^verbatim>\<open>str(i)\<close> of an integer, which is what the writer does with a value that is not a
  string: \<open>duration_seconds\<close> is the only such value of a record.
\<close>

function digits :: "nat \<Rightarrow> string" where
  "digits n = (if n < 10 then [char_of (48 + n)]
               else digits (n div 10) @ [char_of (48 + n mod 10)])"
  by pat_completeness auto
termination
  by (relation "measure id") auto

declare digits.simps [simp del]

definition py_str :: "int \<Rightarrow> string" where
  "py_str i = (if i < 0 then CHR ''-'' # digits (nat (- i)) else digits (nat i))"

text \<open>
  \<^verbatim>\<open>DictWriter._dict_to_list\<close>: the values of the row in the order of \<open>fieldnames\<close>. A
  record has exactly the twelve keys, so no key is extra and none is missing.
\<close>

definition dict_to_list :: "video_record \<Rightarrow> string list" where
  "dict_to_list rowdict =
     [title rowdict, video_id rowdict, url rowdict, view_count rowdict, like_count rowdict,
      comment_count rowdict, publish_date rowdict, py_str (duration_seconds rowdict),
      description rowdict, tags rowdict, transcript rowdict, content rowdict]"

text \<open>
  The writer. With minimal quoting a field is quoted exactly when it contains the
  delimiter, the quote character or a character of the line terminator; inside the
  quotes every quote character is doubled. A row is its fields joined by the delimiter,
  followed by the line terminator; a row that is one empty field is written as a pair of
  quotes.
\<close>

definition quoted :: "string \<Rightarrow> bool" where
  "quoted field = list_ex (\<lambda>c. c = delimiter \<or> c = quotechar \<or> c = CR \<or> c = LF) field"

definition doubled :: "string \<Rightarrow> string" where
  "doubled field = concat (map (\<lambda>c. if c = quotechar then [quotechar, quotechar] else [c]) field)"

definition join_append :: "string \<Rightarrow> string" where
  "join_append field =
     (if quoted field then [quotechar] @ doubled field @ [quotechar] else field)"

definition writerow :: "string list \<Rightarrow> string" where
  "writerow row =
     (if row = [''''] then [quotechar, quotechar]
      else str_join [delimiter] (map join_append row))
     @ [CR, LF]"

definition writerows :: "string list list \<Rightarrow> string" where
  "writerows rows = concat (map writerow rows)"

text \<open>
  \<^verbatim>\<open>export_to_csv(videos_data, filename)\<close>. The clock is the parameter \<open>now\<close>, the
  value of \<^verbatim>\<open>datetime.now().strftime("%Y%m%d_%H%M%S")\<close>; the file system maps a name to
  the text of the file. \<^verbatim>\<open>not filename\<close> holds for \<open>None\<close> and for the empty string.
  The result is the name of the file and the file system with the file written:
  \<^verbatim>\<open>writeheader()\<close>, then \<^verbatim>\<open>writerows(videos_data)\<close>.
\<close>

definition export_to_csv ::
  "string \<Rightarrow> (string \<rightharpoonup> string) \<Rightarrow> video_record list \<Rightarrow> string option
     \<Rightarrow> string \<times> (string \<rightharpoonup> string)" where
  "export_to_csv now fs records filename =
     (let filename = (case filename of
                        None \<Rightarrow> ''youtube_export_'' @ now @ ''.csv''
                      | Some f \<Rightarrow> if f = [] then ''youtube_export_'' @ now @ ''.csv'' else f)
      in (filename,
          fs(filename \<mapsto> writerow fieldnames @ writerows (map dict_to_list records))))"

text \<open>
  The reader, \<^verbatim>\<open>csv.reader\<close>: an automaton over the characters of a line, with the
  state, the field being read and the fields of the row read so far. After the last
  character of every line it is given the end of the line, \<open>EOL\<close>. The states of
  escaped characters are left out: the dialect has no escape character.
\<close>

datatype parser_state =
  START_RECORD | START_FIELD | IN_FIELD | IN_QUOTED_FIELD | QUOTE_IN_QUOTED_FIELD | EAT_CRNL

record reader =
  parse_state :: parser_state
  parse_field :: string
  parse_fields :: "string list"

datatype csv_error = Csv_Error string

datatype input_char = Ch char | EOL

definition parse_save_field :: "reader \<Rightarrow> reader" where
  "parse_save_field rd =
     rd\<lparr> parse_fields := parse_fields rd @ [parse_field rd], parse_field := [] \<rparr>"

definition parse_add_char :: "reader \<Rightarrow> char \<Rightarrow> reader" where
  "parse_add_char rd c = rd\<lparr> parse_field := parse_field rd @ [c] \<rparr>"

text \<open>The end of a row outside quotes: the field is saved; a newline character has the
  rest of the line terminator eaten, the end of the line completes the row.\<close>

definition end_of_line :: "reader \<Rightarrow> input_char \<Rightarrow> reader" where
  "end_of_line rd c =
     (parse_save_field rd)\<lparr> parse_state := (if c = EOL then START_RECORD else EAT_CRNL) \<rparr>"

text \<open>The state \<open>START_FIELD\<close>, which \<open>START_RECORD\<close> falls through to on an ordinary
  character.\<close>

definition start_field :: "reader \<Rightarrow> input_char \<Rightarrow> reader" where
  "start_field rd c =
     (case c of
        EOL \<Rightarrow> end_of_line rd c
      | Ch x \<Rightarrow>
          if x = LF \<or> x = CR then end_of_line rd c
          else if x = quotechar then rd\<lparr> parse_state := IN_QUOTED_FIELD \<rparr>
          else if x = delimiter then parse_save_field rd
          else (parse_add_char rd x)\<lparr> parse_state := IN_FIELD \<rparr>)"

definition parse_process_char :: "reader \<Rightarrow> input_char \<Rightarrow> csv_error + reader" where
  "parse_process_char rd c =
     (case parse_state rd of
        START_RECORD \<Rightarrow>
          (if c = EOL then Inr rd
           else if c = Ch LF \<or> c = Ch CR then Inr (rd\<lparr> parse_state := EAT_CRNL \<rparr>)
           else Inr (start_field (rd\<lparr> parse_state := START_FIELD \<rparr>) c))
      | START_FIELD \<Rightarrow> Inr (start_field rd c)
      | IN_FIELD \<Rightarrow>
          (case c of
             EOL \<Rightarrow> Inr (end_of_line rd c)
           | Ch x \<Rightarrow>
               if x = LF \<or> x = CR then Inr (end_of_line rd c)
               else if x = delimiter
                 then Inr ((parse_save_field rd)\<lparr> parse_state := START_FIELD \<rparr>)
               else Inr (parse_add_char rd x))
      | IN_QUOTED_FIELD \<Rightarrow>
          (case c of
             EOL \<Rightarrow> Inr rd
           | Ch x \<Rightarrow>
               if x = quotechar then Inr (rd\<lparr> parse_state := QUOTE_IN_QUOTED_FIELD \<rparr>)
               else Inr (parse_add_char rd x))
      | QUOTE_IN_QUOTED_FIELD \<Rightarrow>
          (case c of
             EOL \<Rightarrow> Inr (end_of_line rd c)
           | Ch x \<Rightarrow>
               if x = quotechar
                 then Inr ((parse_add_char rd x)\<lparr> parse_state := IN_QUOTED_FIELD \<rparr>)
               else if x = delimiter
                 then Inr ((parse_save_field rd)\<lparr> parse_state := START_FIELD \<rparr>)
               else if x = LF \<or> x = CR then Inr (end_of_line rd c)
               else Inr ((parse_add_char rd x)\<lparr> parse_state := IN_FIELD \<rparr>))
      | EAT_CRNL \<Rightarrow>
          (case c of
             EOL \<Rightarrow> Inr (rd\<lparr> parse_state := START_RECORD \<rparr>)
           | Ch x \<Rightarrow>
               if x = LF \<or> x = CR then Inr rd
               else Inl (Csv_Error ''new-line character seen in unquoted field'')))"

text \<open>One line: its characters, then the end of the line.\<close>

fun parse_line :: "reader \<Rightarrow> string \<Rightarrow> csv_error + reader" where
  "parse_line rd [] = parse_process_char rd EOL"
| "parse_line rd (c # cs) =
     (case parse_process_char rd (Ch c) of
        Inl e \<Rightarrow> Inl e
      | Inr rd' \<Rightarrow> parse_line rd' cs)"

definition parse_reset :: reader where
  "parse_reset = \<lparr> parse_state = START_RECORD, parse_field = [], parse_fields = [] \<rparr>"

text \<open>
  The rows of a list of lines. A row is complete when a line leaves the automaton in
  \<open>START_RECORD\<close>; otherwise, inside quotes, the row goes on with the next line. When
  the lines end inside a row, what was read of it is the last row.
\<close>

fun reader_rows :: "reader \<Rightarrow> string list \<Rightarrow> csv_error + string list list" where
  "reader_rows rd [] =
     (if parse_field rd \<noteq> [] \<or> parse_state rd = IN_QUOTED_FIELD
      then Inr [parse_fields (parse_save_field rd)]
      else Inr [])"
| "reader_rows rd (line # lines) =
     (case parse_line rd line of
        Inl e \<Rightarrow> Inl e
      | Inr rd' \<Rightarrow>
          if parse_state rd' = START_RECORD
          then (case reader_rows parse_reset lines of
                  Inl e \<Rightarrow> Inl e
                | Inr rows \<Rightarrow> Inr (parse_fields rd' # rows))
          else reader_rows rd' lines)"

text \<open>
  The lines of a file opened with \<^verbatim>\<open>newline=''\<close>: a line ends after \<open>\n\<close>, after
  \<open>\r\n\<close>, or after a \<open>\r\<close> that no \<open>\n\<close> follows, and it keeps its ending. \<open>cur\<close> is
  the line read so far.
\<close>

fun file_lines_from :: "string \<Rightarrow> string \<Rightarrow> string list" where
  "file_lines_from cur [] = (if cur = [] then [] else [cur])"
| "file_lines_from cur [c] = [cur @ [c]]"
| "file_lines_from cur (c # d # cs) =
     (if c = LF then (cur @ [c]) # file_lines_from [] (d # cs)
      else if c = CR \<and> d = LF then (cur @ [c, d]) # file_lines_from [] cs
      else if c = CR then (cur @ [c]) # file_lines_from [] (d # cs)
      else file_lines_from (cur @ [c]) (d # cs))"

definition file_lines :: "string \<Rightarrow> string list" where
  "file_lines text = file_lines_from [] text"

text \<open>Reading a file back: \<^verbatim>\<open>list(csv.reader(open(name, newline='')))\<close>.\<close>

definition csv_reader :: "string \<Rightarrow> csv_error + string list list" where
  "csv_reader text = reader_rows parse_reset (file_lines text)"

text \<open>A record whose title needs quotes: it has a quote character and a line
  terminator in it.\<close>

definition quoting_record :: video_record where
  "quoting_record =
     sample_record\<lparr> title := ''say '' @ [quotechar] @ ''hi'' @ [quotechar, CR, LF] @ ''twice'' \<rparr>"

text \<open>The text of the file with the sample record and the quoting record.\<close>

definition sample_csv :: string where
  "sample_csv =
     ''title,video_id,url,view_count,like_count,comment_count,publish_date,duration_seconds,description,tags,transcript,content''
     @ [CR, LF]
     @ ''A title,dQw4w9WgXcQ,https://www.youtube.com/watch?v=dQw4w9WgXcQ,10,0,3,2024-01-02,3723,x y,''
     @ [quotechar] @ ''a,b'' @ [quotechar] @ '',x y,x y''
     @ [CR, LF]
     @ [quotechar] @ ''say '' @ [quotechar, quotechar] @ ''hi'' @ [quotechar, quotechar, CR, LF]
     @ ''twice'' @ [quotechar]
     @ '',dQw4w9WgXcQ,https://www.youtube.com/watch?v=dQw4w9WgXcQ,10,0,3,2024-01-02,3723,x y,''
     @ [quotechar] @ ''a,b'' @ [quotechar] @ '',x y,x y''
     @ [CR, LF]"

section \<open>Properties of the duration parser\<close>

lemma not_digit_markers [simp]:
  "\<not> is_digit (CHR ''H'')" "\<not> is_digit (CHR ''M'')" "\<not> is_digit (CHR ''S'')"
  "\<not> is_digit (CHR ''P'')"
  by (simp_all add: is_digit_def)

lemma digits_notin: "list_all is_digit ds \<Longrightarrow> \<not> is_digit c \<Longrightarrow> c \<notin> set ds"
  by (auto simp: list_all_iff)

lemma str_replace_PT_id: "CHR ''P'' \<notin> set s \<Longrightarrow> str_replace ''PT'' '''' s = s"
  by (induction s) auto

lemma re_search_num_hit:
  "is_number ds \<Longrightarrow> \<not> is_digit m \<Longrightarrow> re_search_num m (ds @ m # rest) = Some ds"
  by (cases ds) (auto simp: is_number_def list_all_iff takeWhile_append dropWhile_append Let_def)

lemma re_search_num_skip:
  "list_all is_digit ds \<Longrightarrow> \<not> is_digit x \<Longrightarrow> x \<noteq> m \<Longrightarrow>
   re_search_num m (ds @ x # rest) = re_search_num m rest"
  by (induction ds) (auto simp: list_all_iff Let_def)

lemma component_set:
  "component_ok c \<Longrightarrow> \<not> is_digit x \<Longrightarrow> x \<in> set (component c m) \<longleftrightarrow> (c \<noteq> None \<and> x = m)"
  by (cases c) (auto simp: is_number_def dest: digits_notin)

lemma add_component_here:
  "component_ok c \<Longrightarrow> \<not> is_digit m \<Longrightarrow> m \<notin> set rest \<Longrightarrow>
   add_component m k (component c m @ rest) t = Inr (t + component_val c * k)"
  by (cases c) (auto simp: add_component_def re_search_num_hit is_number_def dest: digits_notin)

lemma add_component_skip:
  "component_ok c \<Longrightarrow> \<not> is_digit x \<Longrightarrow> \<not> is_digit m \<Longrightarrow> x \<noteq> m \<Longrightarrow>
   add_component m k (component c x @ rest) t = add_component m k rest t"
  by (cases c) (auto simp: add_component_def re_search_num_skip is_number_def dest: digits_notin)

lemma duration_token_body:
  assumes "component_ok h" "component_ok m" "component_ok s"
  shows "str_replace ''PT'' '''' (duration_token h m s)
         = component h (CHR ''H'') @ component m (CHR ''M'') @ component s (CHR ''S'')"
proof -
  have "CHR ''P'' \<notin> set (component h (CHR ''H'') @ component m (CHR ''M'') @ component s (CHR ''S''))"
    using assms by (simp add: component_set)
  then show ?thesis
    by (simp add: duration_token_def str_replace_PT_id)
qed

lemma str_replace_PT_set: "x \<in> set (str_replace ''PT'' '''' s) \<Longrightarrow> x \<in> set s"
proof (induction s rule: length_induct)
  case (1 s)
  show ?case
  proof (cases s)
    case Nil
    with "1.prems" show ?thesis by simp
  next
    case (Cons c cs)
    show ?thesis
    proof (cases "take 2 (c # cs) = ''PT''")
      case True
      with "1.prems" Cons have "x \<in> set (str_replace ''PT'' '''' (drop 2 (c # cs)))"
        by simp
      moreover have "length (drop 2 (c # cs)) < length s"
        using Cons by simp
      ultimately have "x \<in> set (drop 2 (c # cs))"
        using "1.IH" by blast
      then show ?thesis
        using Cons by (auto dest: in_set_dropD)
    next
      case False
      with "1.prems" Cons have "x = c \<or> x \<in> set (str_replace ''PT'' '''' cs)"
        by auto
      moreover have "length cs < length s"
        using Cons by simp
      ultimately show ?thesis
        using "1.IH" Cons by auto
    qed
  qed
qed

lemma add_component_absent: "m \<notin> set duration \<Longrightarrow> add_component m k duration t = Inr t"
  by (simp add: add_component_def)

text \<open>
  C3. On a token \<open>PT[nH][nM][nS]\<close>, each component absent or a non-empty run of decimal
  digits before its marker, \<open>parse_duration\<close> returns hours * 3600 + minutes * 60 +
  seconds, an absent component counting 0. On every string in which none of the markers
  \<open>H\<close>, \<open>M\<close>, \<open>S\<close> occurs it returns 0. \<open>PT1H2M3S\<close> gives 3723, \<open>PT45S\<close> gives 45,
  \<open>PT2H\<close> gives 7200 and \<open>PT\<close> gives 0.
\<close>

theorem parse_duration_token:
  "(component_ok h \<and> component_ok m \<and> component_ok s \<longrightarrow>
      parse_duration (duration_token h m s)
        = Inr (component_val h * 3600 + component_val m * 60 + component_val s))
   \<and> (CHR ''H'' \<notin> set d \<and> CHR ''M'' \<notin> set d \<and> CHR ''S'' \<notin> set d \<longrightarrow>
      parse_duration d = Inr 0)
   \<and> parse_duration ''PT1H2M3S'' = Inr 3723
   \<and> parse_duration ''PT45S'' = Inr 45
   \<and> parse_duration ''PT2H'' = Inr 7200
   \<and> parse_duration ''PT'' = Inr 0"
proof (intro conjI impI)
  assume none: "CHR ''H'' \<notin> set d \<and> CHR ''M'' \<notin> set d \<and> CHR ''S'' \<notin> set d"
  let ?body = "str_replace ''PT'' '''' d"
  have "CHR ''H'' \<notin> set ?body" "CHR ''M'' \<notin> set ?body" "CHR ''S'' \<notin> set ?body"
    using none str_replace_PT_set [of _ d] by blast+
  then show "parse_duration d = Inr 0"
    by (simp add: parse_duration_def Let_def add_component_absent)
next
  assume ok: "component_ok h \<and> component_ok m \<and> component_ok s"
  let ?H = "CHR ''H''" and ?M = "CHR ''M''" and ?S = "CHR ''S''"
  let ?body = "component h ?H @ component m ?M @ component s ?S"
  have body: "str_replace ''PT'' '''' (duration_token h m s) = ?body"
    using ok by (simp add: duration_token_body)
  have hh: "add_component ?H 3600 ?body 0 = Inr (component_val h * 3600)"
    using ok by (simp add: add_component_here component_set)
  have mm: "add_component ?M 60 ?body t = Inr (t + component_val m * 60)" for t
    using ok by (simp add: add_component_skip add_component_here component_set)
  have ss: "add_component ?S 1 ?body t = Inr (t + component_val s)" for t
    using ok add_component_here [of s ?S "[]" 1 t]
    by (simp add: add_component_skip)
  show "parse_duration (duration_token h m s)
        = Inr (component_val h * 3600 + component_val m * 60 + component_val s)"
    unfolding parse_duration_def body Let_def hh mm ss by simp
qed (simp_all add: parse_duration_def add_component_def is_digit_def py_int_def digit_val_def Let_def)

theorem parse_duration_token_witness:
  "component_ok (Some ''1'') \<and> component_ok (Some ''02'') \<and> component_ok None
   \<and> duration_token (Some ''1'') (Some ''02'') None = ''PT1H02M''
   \<and> parse_duration ''PT1H02M'' = Inr 3720
   \<and> CHR ''H'' \<notin> set ''P1DT'' \<and> CHR ''M'' \<notin> set ''P1DT'' \<and> CHR ''S'' \<notin> set ''P1DT''
   \<and> parse_duration ''P1DT'' = Inr 0"
  using parse_duration_token [of "Some ''1''" "Some ''02''" None "''P1DT''"]
  by (simp add: duration_token_def is_number_def is_digit_def py_int_def digit_val_def)

section \<open>Properties of the collector\<close>

lemma slice_to_length: "0 \<le> n \<Longrightarrow> int (length (slice_to xs n)) \<le> n"
  by (simp add: slice_to_def)

lemma extract_ids_items: "extract_ids (map search_item_of vs) = Inr vs"
  by (induction vs) (simp_all add: search_item_of_def subscript_def)

lemma extract_ids_raises:
  "extract_ids its = Inl e \<Longrightarrow> e = KeyError ''id'' \<or> e = KeyError ''videoId''"
  by (induction its) (auto simp: subscript_def split: option.splits sum.splits)

lemma collect_loop_raises:
  "collect_loop api cid N n acc tok = (msgs, ids, Loop_raised e) \<Longrightarrow>
   e = KeyError ''id'' \<or> e = KeyError ''videoId''"
proof (induction api cid N n acc tok rule: collect_loop.induct)
  case (1 api cid N n acc tok)
  from "1.prems" show ?case
    apply (subst (asm) collect_loop.simps)
    apply (simp only: Let_def split: if_splits api_result.splits option.splits list.splits sum.splits)
    using "1.IH" extract_ids_raises
    by (auto simp del: extract_ids.simps)
qed

definition token_for :: "nat \<Rightarrow> string option" where
  "token_for k = (if k = 0 then None else Some (replicate k (CHR ''x'')))"

lemma paged_loop:
  assumes "int k \<le> N" "N \<le> int (length vids)"
  shows "collect_loop (paged_search vids) cid N n (take k vids) (token_for k)
         = ([], take (nat N) vids, Loop_done)"
  using assms
proof (induction "nat N - k" arbitrary: k n rule: less_induct)
  case less
  show ?case
  proof (cases "int k < N")
    case False
    with less.prems have "nat N = k" by simp
    with False less.prems show ?thesis
      by (subst collect_loop.simps) simp
  next
    case True
    define rm where "rm = min 50 (N - int k)"
    define page where "page = take (nat rm) (drop k vids)"
    have rm_pos: "0 < rm" and rm_le: "rm \<le> N - int k"
      using True by (simp_all add: rm_def)
    have len_page: "length page = nat rm"
      using rm_le less.prems by (simp add: page_def)
    have page_ne: "page \<noteq> []"
      using len_page rm_pos by auto
    have pos: "(case token_for k of None \<Rightarrow> 0 | Some t \<Rightarrow> length t) = k"
      by (simp add: token_for_def)
    have acc: "take k vids @ page = take (k + nat rm) vids"
      by (simp add: page_def take_add)
    have lenk: "min (length vids) k = k"
      using less.prems by simp
    have api: "paged_search vids n cid rm (token_for k)
               = Returns \<lparr> search_items = Some (map search_item_of page),
                   search_nextPageToken =
                     (if k + nat rm < length vids
                      then Some (replicate (k + nat rm) (CHR ''x''))
                      else None) \<rparr>"
      by (simp add: paged_search_def pos page_def[symmetric] len_page Let_def)
    obtain p ps where pps: "map search_item_of page = p # ps"
      using page_ne by (cases page) auto
    have ex: "extract_ids (p # ps) = Inr page"
      using extract_ids_items [of page] pps by simp
    show ?thesis
    proof (cases "k + nat rm < length vids")
      case more: True
      have tok: "token_for (k + nat rm) = Some (replicate (k + nat rm) (CHR ''x''))"
        using rm_pos by (simp add: token_for_def)
      have rec: "collect_loop (paged_search vids) cid N (Suc n) (take (k + nat rm) vids)
                   (token_for (k + nat rm)) = ([], take (nat N) vids, Loop_done)"
        using less.hyps [of "k + nat rm" "Suc n"] rm_pos rm_le less.prems True by simp
      have ne: "replicate (k + nat rm) (CHR ''x'') \<noteq> []"
        using rm_pos by simp
      show ?thesis
        apply (subst collect_loop.simps)
        using True more ne rec rm_pos
        by (simp add: lenk Let_def rm_def[symmetric] api pps ex acc tok del: extract_ids.simps)
    next
      case last: False
      have "k + nat rm = nat N"
        using last rm_le less.prems by simp
      then have fin: "take (k + nat rm) vids = take (nat N) vids" by simp
      show ?thesis
        apply (subst collect_loop.simps)
        using True last
        by (simp add: lenk Let_def rm_def[symmetric] api pps ex acc fin del: extract_ids.simps)
    qed
  qed
qed

lemma get_channel_videos_paged:
  assumes "0 \<le> N" "N \<le> int (length vids)"
  shows "get_channel_videos (paged_search vids) cid N = ([], Inr (take (nat N) vids))"
  using paged_loop [of 0 N vids cid 0] assms
  by (simp add: get_channel_videos_def token_for_def slice_to_def)

lemma sized_loop:
  assumes "int k \<le> N" "N \<le> int (length vids)" "\<forall>n. 0 < sizes n"
  shows "collect_loop (paged_search_sized sizes vids) cid N n (take k vids) (token_for k)
         = ([], take (nat N) vids, Loop_done)"
  using assms(1,2)
proof (induction "nat N - k" arbitrary: k n rule: less_induct)
  case less
  show ?case
  proof (cases "int k < N")
    case False
    with less.prems have "nat N = k" by simp
    with False less.prems show ?thesis
      by (subst collect_loop.simps) simp
  next
    case True
    define rm where "rm = min 50 (N - int k)"
    define sz where "sz = min (nat rm) (sizes n)"
    define page where "page = take sz (drop k vids)"
    have rm_pos: "0 < rm" and rm_le: "rm \<le> N - int k"
      using True by (simp_all add: rm_def)
    have sz_pos: "0 < sz" and sz_le: "int sz \<le> N - int k"
      using rm_pos rm_le assms(3) by (simp_all add: sz_def)
    have len_page: "length page = sz"
      using sz_le less.prems by (simp add: page_def)
    have page_ne: "page \<noteq> []"
      using len_page sz_pos by auto
    have pos: "(case token_for k of None \<Rightarrow> 0 | Some t \<Rightarrow> length t) = k"
      by (simp add: token_for_def)
    have acc: "take k vids @ page = take (k + sz) vids"
      by (simp add: page_def take_add)
    have lenk: "min (length vids) k = k"
      using less.prems by simp
    have api: "paged_search_sized sizes vids n cid rm (token_for k)
               = Returns \<lparr> search_items = Some (map search_item_of page),
                   search_nextPageToken =
                     (if k + sz < length vids
                      then Some (replicate (k + sz) (CHR ''x''))
                      else None) \<rparr>"
      unfolding paged_search_sized_def Let_def pos sz_def[symmetric] page_def[symmetric] len_page
      by simp
    obtain p ps where pps: "map search_item_of page = p # ps"
      using page_ne by (cases page) auto
    have ex: "extract_ids (p # ps) = Inr page"
      using extract_ids_items [of page] pps by simp
    show ?thesis
    proof (cases "k + sz < length vids")
      case more: True
      have tok: "token_for (k + sz) = Some (replicate (k + sz) (CHR ''x''))"
        using sz_pos by (simp add: token_for_def)
      have rec: "collect_loop (paged_search_sized sizes vids) cid N (Suc n) (take (k + sz) vids)
                   (token_for (k + sz)) = ([], take (nat N) vids, Loop_done)"
        using less.hyps [of "k + sz" "Suc n"] sz_pos sz_le less.prems True by simp
      have ne: "replicate (k + sz) (CHR ''x'') \<noteq> []"
        using sz_pos by simp
      show ?thesis
        apply (subst collect_loop.simps)
        using True more ne rec sz_pos
        by (simp add: lenk Let_def rm_def[symmetric] api pps ex acc tok del: extract_ids.simps)
    next
      case last: False
      have "k + sz = nat N"
        using last sz_le less.prems by simp
      then have fin: "take (k + sz) vids = take (nat N) vids" by simp
      show ?thesis
        apply (subst collect_loop.simps)
        using True last
        by (simp add: lenk Let_def rm_def[symmetric] api pps ex acc fin del: extract_ids.simps)
    qed
  qed
qed

lemma get_channel_videos_sized:
  assumes "0 \<le> N" "N \<le> int (length vids)" "\<forall>n. 0 < sizes n"
  shows "get_channel_videos (paged_search_sized sizes vids) cid N = ([], Inr (take (nat N) vids))"
  using sized_loop [of 0 N vids sizes cid 0] assms
  by (simp add: get_channel_videos_def token_for_def slice_to_def)

text \<open>
  C1, as stated, fails: a channel with three public videos is asked for two, no request
  raises an error, and one identifier is returned. The first page holds one video, the
  second page holds none, and a page without items ends the collection with a warning.
\<close>

theorem get_channel_videos_empty_page_counterexample:
  "get_channel_videos (paged_search_sized first_page_only [''a'', ''b'', ''c'']) ''UC'' 2
     = ([Warning_no_videos_found ''UC''], Inr [''a''])"
  by code_simp

text \<open>
  C1, amended. For a target count \<open>N \<ge> 0\<close> and any behaviour of the search endpoint,
  \<open>get_channel_videos\<close> ends: it returns at most \<open>N\<close> identifiers, unless a search
  item without \<open>id\<close> or \<open>videoId\<close> makes it raise \<open>KeyError\<close>. On a channel with at
  least \<open>N\<close> public videos that is served without errors in pages that are never
  empty, however short, each with a token for the next while videos remain, it returns
  exactly \<open>N\<close> identifiers, the \<open>N\<close> newest, and shows nothing. A page without items
  ends the collection with a warning, also when no error occurred.
\<close>

theorem get_channel_videos_count:
  assumes "0 \<le> N"
  shows "(case snd (get_channel_videos api cid N) of
            Inr ids \<Rightarrow> int (length ids) \<le> N
          | Inl e \<Rightarrow> e = KeyError ''id'' \<or> e = KeyError ''videoId'')
         \<and> (N \<le> int (length vids) \<and> (\<forall>n. 0 < sizes n) \<longrightarrow>
              get_channel_videos (paged_search_sized sizes vids) cid N
                = ([], Inr (take (nat N) vids))
              \<and> int (length (take (nat N) vids)) = N)
         \<and> (N \<le> int (length vids) \<longrightarrow>
              get_channel_videos (paged_search vids) cid N = ([], Inr (take (nat N) vids)))"
proof (intro conjI impI)
  obtain msgs ids ending where loop: "collect_loop api cid N 0 [] None = (msgs, ids, ending)"
    by (cases "collect_loop api cid N 0 [] None") auto
  show "case snd (get_channel_videos api cid N) of
            Inr ids \<Rightarrow> int (length ids) \<le> N
          | Inl e \<Rightarrow> e = KeyError ''id'' \<or> e = KeyError ''videoId''"
  proof (cases ending)
    case Loop_done
    with loop assms show ?thesis
      by (simp add: get_channel_videos_def slice_to_length)
  next
    case (Loop_HttpError e)
    with loop assms show ?thesis
      by (simp add: get_channel_videos_def slice_to_length)
  next
    case (Loop_raised e)
    with loop collect_loop_raises [of api cid N 0 "[]" None msgs ids e] show ?thesis
      by (simp add: get_channel_videos_def)
  qed
next
  assume a: "N \<le> int (length vids) \<and> (\<forall>n. 0 < sizes n)"
  with assms show "get_channel_videos (paged_search_sized sizes vids) cid N
                = ([], Inr (take (nat N) vids))"
    by (intro get_channel_videos_sized) simp_all
  from a assms show "int (length (take (nat N) vids)) = N"
    by auto
next
  assume "N \<le> int (length vids)"
  with assms show "get_channel_videos (paged_search vids) cid N = ([], Inr (take (nat N) vids))"
    by (rule get_channel_videos_paged)
qed

theorem get_channel_videos_count_witness:
  "(0::int) \<le> 3 \<and> (3::int) \<le> int (length [''a'', ''b'', ''c'', ''d''])
   \<and> (\<forall>n. 0 < Suc n)
   \<and> get_channel_videos (paged_search_sized Suc [''a'', ''b'', ''c'', ''d'']) ''UC'' 3
       = ([], Inr [''a'', ''b'', ''c''])
   \<and> get_channel_videos (paged_search [''a'', ''b'', ''c'', ''d'']) ''UC'' 3
       = ([], Inr [''a'', ''b'', ''c''])"
  using get_channel_videos_count
          [where N = 3 and vids = "[''a'', ''b'', ''c'', ''d'']" and sizes = Suc and cid = "''UC''"]
  by simp

lemma collect_loop_HttpError_here:
  "int (length acc) < N \<Longrightarrow> api n cid (min 50 (N - int (length acc))) tok = Raises_HttpError e \<Longrightarrow>
   collect_loop api cid N n acc tok = ([], acc, Loop_HttpError e)"
  by (subst collect_loop.simps) (simp add: Let_def)

lemma collect_loop_HttpError_short:
  "collect_loop api cid N n acc tok = (msgs, ids, Loop_HttpError e) \<Longrightarrow> int (length ids) < N"
proof (induction api cid N n acc tok rule: collect_loop.induct)
  case (1 api cid N n acc tok)
  from "1.prems" show ?case
    apply (subst (asm) collect_loop.simps)
    apply (simp only: Let_def split: if_splits api_result.splits option.splits list.splits sum.splits)
    using "1.IH"
    by (auto simp del: extract_ids.simps)
qed

lemma collect_loop_step:
  assumes "int (length acc) < N"
    and "api n cid (min 50 (N - int (length acc))) tok
         = Returns \<lparr> search_items = Some (map search_item_of page),
                     search_nextPageToken = Some t \<rparr>"
    and "page \<noteq> []" "t \<noteq> []"
  shows "collect_loop api cid N n acc tok = collect_loop api cid N (Suc n) (acc @ page) (Some t)"
proof -
  obtain p ps where pps: "map search_item_of page = p # ps"
    using assms(3) by (cases page) auto
  have ex: "extract_ids (p # ps) = Inr page"
    using extract_ids_items [of page] pps by simp
  show ?thesis
    by (subst collect_loop.simps)
       (simp add: assms Let_def pps ex del: extract_ids.simps)
qed

lemma failing_loop:
  assumes "n \<le> k" "50 * int k < N" "N \<le> int (length vids)"
  shows "collect_loop (fails_at k e (paged_search vids)) cid N n (take (50 * n) vids) (token_for (50 * n))
         = ([], take (50 * k) vids, Loop_HttpError e)"
  using assms
proof (induction "k - n" arbitrary: n)
  case 0
  then have nk: "n = k" by simp
  have len: "length (take (50 * k) vids) = 50 * k"
    using 0 by simp
  show ?case
    unfolding nk
    by (rule collect_loop_HttpError_here) (use 0 len in \<open>simp_all add: fails_at_def\<close>)
next
  case (Suc d)
  then have lt: "n < k" by simp
  let ?acc = "take (50 * n) vids"
  define page where "page = take 50 (drop (50 * n) vids)"
  have big: "50 * n + 50 \<le> 50 * k" using lt by simp
  have room: "50 * k < length vids" using Suc.prems by simp
  have len_acc: "length ?acc = 50 * n"
    using big room by simp
  have cont: "int (length ?acc) < N"
    using big Suc.prems len_acc by simp
  have rm: "min 50 (N - int (length ?acc)) = 50"
    using big Suc.prems len_acc by simp
  have len_page: "length page = 50"
    using big room by (simp add: page_def)
  have pos: "(case token_for (50 * n) of None \<Rightarrow> 0 | Some t \<Rightarrow> length t) = 50 * n"
    by (simp add: token_for_def)
  have api: "fails_at k e (paged_search vids) n cid (min 50 (N - int (length ?acc))) (token_for (50 * n))
             = Returns \<lparr> search_items = Some (map search_item_of page),
                 search_nextPageToken = Some (replicate (50 * Suc n) (CHR ''x'')) \<rparr>"
    unfolding rm using lt big room
    by (simp add: fails_at_def paged_search_def pos page_def[symmetric] len_page Let_def)
  have "?acc @ page = take (50 * n + 50) vids"
    by (simp add: page_def take_add)
  then have acc: "?acc @ page = take (50 * Suc n) vids"
    by (simp add: add.commute)
  have tok: "Some (replicate (50 * Suc n) (CHR ''x'')) = token_for (50 * Suc n)"
    by (simp add: token_for_def)
  have rec: "collect_loop (fails_at k e (paged_search vids)) cid N (Suc n) (take (50 * Suc n) vids)
               (token_for (50 * Suc n)) = ([], take (50 * k) vids, Loop_HttpError e)"
    using Suc.hyps(1) [of "Suc n"] Suc.hyps(2) Suc.prems lt by simp
  have "collect_loop (fails_at k e (paged_search vids)) cid N n ?acc (token_for (50 * n))
        = collect_loop (fails_at k e (paged_search vids)) cid N (Suc n) (?acc @ page)
            (Some (replicate (50 * Suc n) (CHR ''x'')))"
    using cont api len_page
    by (intro collect_loop_step) auto
  also have "\<dots> = ([], take (50 * k) vids, Loop_HttpError e)"
    unfolding acc tok by (rule rec)
  finally show ?case .
qed

text \<open>
  C5. A request that raises \<open>HttpError\<close> ends the loop with the accumulator as it was;
  \<open>get_channel_videos\<close> then reports the error and returns the accumulator, which is
  shorter than the maximum, so that the final slice changes nothing. Against a channel
  served page by page whose request number \<open>k\<close> fails, the result is the \<open>50 * k\<close>
  identifiers of the pages before it.
\<close>

theorem get_channel_videos_http_error:
  "(int (length acc) < N \<and> api n cid (min 50 (N - int (length acc))) tok = Raises_HttpError e
      \<longrightarrow> collect_loop api cid N n acc tok = ([], acc, Loop_HttpError e))
   \<and> (collect_loop api cid N 0 [] None = (msgs, ids, Loop_HttpError e)
      \<longrightarrow> get_channel_videos api cid N = (msgs @ [Error_getting_channel_videos e], Inr (slice_to ids N))
          \<and> slice_to ids N = ids)
   \<and> (50 * int k < N \<and> N \<le> int (length vids)
      \<longrightarrow> get_channel_videos (fails_at k e (paged_search vids)) cid N
            = ([Error_getting_channel_videos e], Inr (take (50 * k) vids)))"
proof (intro conjI impI)
  assume "int (length acc) < N \<and> api n cid (min 50 (N - int (length acc))) tok = Raises_HttpError e"
  then show "collect_loop api cid N n acc tok = ([], acc, Loop_HttpError e)"
    by (simp add: collect_loop_HttpError_here)
next
  assume l: "collect_loop api cid N 0 [] None = (msgs, ids, Loop_HttpError e)"
  then show "get_channel_videos api cid N
             = (msgs @ [Error_getting_channel_videos e], Inr (slice_to ids N))"
    by (simp add: get_channel_videos_def)
  from collect_loop_HttpError_short [OF l] show "slice_to ids N = ids"
    by (simp add: slice_to_def)
next
  assume a: "50 * int k < N \<and> N \<le> int (length vids)"
  then have "collect_loop (fails_at k e (paged_search vids)) cid N 0 [] None
             = ([], take (50 * k) vids, Loop_HttpError e)"
    using failing_loop [of 0 k N vids e cid] by (simp add: token_for_def)
  moreover have "min (nat N) (50 * k) = 50 * k"
    using a by linarith
  then have "slice_to (take (50 * k) vids) N = take (50 * k) vids"
    using a by (simp add: slice_to_def)
  ultimately show "get_channel_videos (fails_at k e (paged_search vids)) cid N
            = ([Error_getting_channel_videos e], Inr (take (50 * k) vids))"
    by (simp add: get_channel_videos_def)
qed

theorem get_channel_videos_http_error_witness:
  "50 * int 1 < 60 \<and> (60::int) \<le> int (length (replicate 70 ''v''))
   \<and> get_channel_videos (fails_at 1 ''quotaExceeded'' (paged_search (replicate 70 ''v''))) ''UC'' 60
       = ([Error_getting_channel_videos ''quotaExceeded''], Inr (replicate 50 ''v''))"
  using get_channel_videos_http_error [of _ 60 _ _ "''UC''" _ "''quotaExceeded''" _ _ 1 "replicate 70 ''v''"]
  by simp

section \<open>Properties of the flattening\<close>

lemma str_replace_newline:
  "str_replace [CHR 0x0A] '' '' s = map (\<lambda>c. if c = CHR 0x0A then CHR '' '' else c) s"
  by (induction s) auto

lemma process_video_data_Inr:
  assumes "process_video_data video = Inr r"
  obtains sn st cd d secs p t i where
    "video_json_snippet video = Some sn" "video_json_statistics video = Some st"
    "video_json_contentDetails video = Some cd" "contentDetails_duration cd = Some d"
    "parse_duration d = Inr secs" "snippet_publishedAt sn = Some p"
    "snippet_title sn = Some t" "video_json_id video = Some i"
    "r = \<lparr> title = t, video_id = i, url = ''https://www.youtube.com/watch?v='' @ i,
           view_count = get_default (statistics_viewCount st) ''0'',
           like_count = get_default (statistics_likeCount st) ''0'',
           comment_count = get_default (statistics_commentCount st) ''0'',
           publish_date = take 10 p,
           duration_seconds = secs,
           description = str_replace [CHR 0x0A] '' '' (get_default (snippet_description sn) ''''),
           tags = (if snippet_tags sn \<noteq> None \<and> snippet_tags sn \<noteq> Some []
                   then str_join '','' (get_default (snippet_tags sn) []) else ''''),
           transcript = str_replace [CHR 0x0A] '' '' (get_default (snippet_description sn) ''''),
           content = str_replace [CHR 0x0A] '' '' (get_default (snippet_description sn) '''') \<rparr>"
  using assms
  by (auto simp: process_video_data_def subscript_def Let_def split: option.splits sum.splits)

lemma process_video_data_required:
  "required_present video \<longleftrightarrow> (\<exists>r. process_video_data video = Inr r)"
  by (auto simp: required_present_def process_video_data_def subscript_def Let_def
           split: option.splits sum.splits)

lemma parse_sample_duration: "parse_duration ''PT1H2M3S'' = Inr 3723"
  by (simp add: parse_duration_def add_component_def is_digit_def py_int_def digit_val_def Let_def)

lemma process_sample_video: "process_video_data sample_video = Inr sample_record"
  by (simp add: process_video_data_def sample_video_def sample_record_def subscript_def
        get_default_def parse_sample_duration Let_def)

text \<open>
  C2, as stated, fails: the flattening raises on a payload whose \<open>statistics\<close> object
  is absent (so that \<open>likeCount\<close> is missing), and on one whose snippet has no title.
\<close>

theorem process_video_data_missing_key_counterexample:
  "process_video_data (sample_video\<lparr>video_json_statistics := None\<rparr>) = Inl (KeyError ''statistics'')
   \<and> process_video_data
       (sample_video\<lparr>video_json_snippet :=
          Some \<lparr> snippet_title = None, snippet_publishedAt = Some ''2024-01-02T03:04:05Z'',
                 snippet_tags = None, snippet_description = None \<rparr>\<rparr>) = Inl (KeyError ''title'')"
  by (simp add: process_video_data_def sample_video_def subscript_def
        get_default_def parse_sample_duration Let_def)

text \<open>
  C2, amended. The flattening returns a record exactly on the payloads that have \<open>id\<close>,
  \<open>snippet\<close> with \<open>title\<close> and \<open>publishedAt\<close>, \<open>statistics\<close>, and
  \<open>contentDetails.duration\<close> with a duration that parses; on those, an absent
  \<open>viewCount\<close>, \<open>likeCount\<close> or \<open>commentCount\<close> becomes \<open>0\<close> and absent tags or an
  absent description become the empty string. On every other payload it raises.
\<close>

theorem process_video_data_defaults:
  "(required_present video \<longrightarrow>
      (\<exists>r. process_video_data video = Inr r
         \<and> (\<forall>st. video_json_statistics video = Some st \<longrightarrow>
               (statistics_viewCount st = None \<longrightarrow> view_count r = ''0'')
             \<and> (statistics_likeCount st = None \<longrightarrow> like_count r = ''0'')
             \<and> (statistics_commentCount st = None \<longrightarrow> comment_count r = ''0''))
         \<and> (\<forall>sn. video_json_snippet video = Some sn \<longrightarrow>
               (snippet_tags sn = None \<longrightarrow> tags r = '''')
             \<and> (snippet_description sn = None \<longrightarrow>
                  description r = '''' \<and> transcript r = '''' \<and> content r = ''''))))
   \<and> (\<not> required_present video \<longrightarrow> (\<exists>e. process_video_data video = Inl e))"
proof (intro conjI impI)
  assume "required_present video"
  then obtain r where r: "process_video_data video = Inr r"
    by (auto simp: process_video_data_required)
  from r show "\<exists>r. process_video_data video = Inr r
         \<and> (\<forall>st. video_json_statistics video = Some st \<longrightarrow>
               (statistics_viewCount st = None \<longrightarrow> view_count r = ''0'')
             \<and> (statistics_likeCount st = None \<longrightarrow> like_count r = ''0'')
             \<and> (statistics_commentCount st = None \<longrightarrow> comment_count r = ''0''))
         \<and> (\<forall>sn. video_json_snippet video = Some sn \<longrightarrow>
               (snippet_tags sn = None \<longrightarrow> tags r = '''')
             \<and> (snippet_description sn = None \<longrightarrow>
                  description r = '''' \<and> transcript r = '''' \<and> content r = ''''))"
  proof (rule process_video_data_Inr)
    fix sn st cd d secs p t i
    assume sn: "video_json_snippet video = Some sn"
      and st: "video_json_statistics video = Some st"
      and req: "r = \<lparr> title = t, video_id = i, url = ''https://www.youtube.com/watch?v='' @ i,
           view_count = get_default (statistics_viewCount st) ''0'',
           like_count = get_default (statistics_likeCount st) ''0'',
           comment_count = get_default (statistics_commentCount st) ''0'',
           publish_date = take 10 p,
           duration_seconds = secs,
           description = str_replace [CHR 0x0A] '' '' (get_default (snippet_description sn) ''''),
           tags = (if snippet_tags sn \<noteq> None \<and> snippet_tags sn \<noteq> Some []
                   then str_join '','' (get_default (snippet_tags sn) []) else ''''),
           transcript = str_replace [CHR 0x0A] '' '' (get_default (snippet_description sn) ''''),
           content = str_replace [CHR 0x0A] '' '' (get_default (snippet_description sn) '''') \<rparr>"
    have stats: "(statistics_viewCount st = None \<longrightarrow> view_count r = ''0'')
             \<and> (statistics_likeCount st = None \<longrightarrow> like_count r = ''0'')
             \<and> (statistics_commentCount st = None \<longrightarrow> comment_count r = ''0'')"
      by (simp add: req get_default_def)
    have snip: "(snippet_tags sn = None \<longrightarrow> tags r = '''')
             \<and> (snippet_description sn = None \<longrightarrow>
                  description r = '''' \<and> transcript r = '''' \<and> content r = '''')"
      by (simp add: req get_default_def)
    show ?thesis
      using r sn st stats snip by auto
  qed
next
  assume "\<not> required_present video"
  then show "\<exists>e. process_video_data video = Inl e"
    by (cases "process_video_data video") (auto simp: process_video_data_required)
qed

theorem process_video_data_defaults_witness:
  "required_present sample_video
   \<and> (\<exists>r. process_video_data sample_video = Inr r \<and> like_count r = ''0'')
   \<and> \<not> required_present (sample_video\<lparr>video_json_statistics := None\<rparr>)
   \<and> (\<exists>e. process_video_data (sample_video\<lparr>video_json_statistics := None\<rparr>) = Inl e)"
proof -
  have a: "required_present sample_video"
    by (simp add: required_present_def sample_video_def parse_sample_duration)
  have b: "\<not> required_present (sample_video\<lparr>video_json_statistics := None\<rparr>)"
    by (simp add: required_present_def sample_video_def)
  have c: "video_json_statistics sample_video
           = Some \<lparr> statistics_viewCount = Some ''10'', statistics_likeCount = None,
                    statistics_commentCount = Some ''3'' \<rparr>"
    by (simp add: sample_video_def)
  from a process_video_data_defaults [of sample_video] c
  have "\<exists>r. process_video_data sample_video = Inr r \<and> like_count r = ''0''"
    by auto
  moreover from b process_video_data_defaults [of "sample_video\<lparr>video_json_statistics := None\<rparr>"]
  have "\<exists>e. process_video_data (sample_video\<lparr>video_json_statistics := None\<rparr>) = Inl e"
    by blast
  ultimately show ?thesis using a b by blast
qed

lemma flattened_fields:
  assumes "process_video_data video = Inr r"
  shows "\<exists>sn p. video_json_snippet video = Some sn \<and> snippet_publishedAt sn = Some p
           \<and> publish_date r = take 10 p
           \<and> tags r = (case snippet_tags sn of None \<Rightarrow> '''' | Some ts \<Rightarrow> str_join '','' ts)
           \<and> description r
               = map (\<lambda>c. if c = CHR 0x0A then CHR '' '' else c)
                   (case snippet_description sn of None \<Rightarrow> '''' | Some d \<Rightarrow> d)
           \<and> transcript r = description r \<and> content r = description r"
  using assms
  by (elim process_video_data_Inr)
     (auto simp: get_default_def str_replace_newline split: option.splits)

lemma sample_video_required: "required_present sample_video"
  by (simp add: required_present_def sample_video_def parse_sample_duration)

text \<open>
  C7, as stated, fails: the flattening does not produce a record for every payload. On a
  payload whose snippet has no \<open>publishedAt\<close>, and on one without \<open>contentDetails\<close>,
  it raises \<open>KeyError\<close>, and on a duration whose marker has no number before it
  \<open>AttributeError\<close>.
\<close>

theorem process_video_data_no_record_counterexample:
  "process_video_data
     (sample_video\<lparr>video_json_snippet :=
        Some \<lparr> snippet_title = Some ''A title'', snippet_publishedAt = None,
               snippet_tags = Some [''a'', ''b''], snippet_description = Some ''x'' \<rparr>\<rparr>)
     = Inl (KeyError ''publishedAt'')
   \<and> process_video_data (sample_video\<lparr>video_json_contentDetails := None\<rparr>)
     = Inl (KeyError ''contentDetails'')
   \<and> process_video_data
       (sample_video\<lparr>video_json_contentDetails := Some \<lparr> contentDetails_duration = Some ''PTM'' \<rparr>\<rparr>)
     = Inl AttributeError"
  by (simp add: process_video_data_def sample_video_def subscript_def get_default_def
        parse_duration_def add_component_def is_digit_def Let_def)

text \<open>
  C7, amended. For every payload that has what the flattening requires (\<open>id\<close>,
  \<open>snippet\<close> with \<open>title\<close> and \<open>publishedAt\<close>, \<open>statistics\<close>, and
  \<open>contentDetails.duration\<close> with a duration that parses) the flattening produces a
  record, and every record it produces has as \<open>publish_date\<close> the first 10 characters
  of \<open>publishedAt\<close>, as \<open>tags\<close> the tags joined by commas (empty when there are
  none), as \<open>description\<close> the description with every newline replaced by a space, and
  the same value as \<open>transcript\<close> and as \<open>content\<close>. For any other payload it
  produces no record.
\<close>

theorem process_video_data_fields:
  "(required_present video \<longrightarrow>
      (\<exists>r sn p. process_video_data video = Inr r
         \<and> video_json_snippet video = Some sn \<and> snippet_publishedAt sn = Some p
         \<and> publish_date r = take 10 p
         \<and> tags r = (case snippet_tags sn of None \<Rightarrow> '''' | Some ts \<Rightarrow> str_join '','' ts)
         \<and> description r
             = map (\<lambda>c. if c = CHR 0x0A then CHR '' '' else c)
                 (case snippet_description sn of None \<Rightarrow> '''' | Some d \<Rightarrow> d)
         \<and> transcript r = description r \<and> content r = description r))
   \<and> (\<forall>r. process_video_data video = Inr r \<longrightarrow>
        required_present video
        \<and> (\<exists>sn p. video_json_snippet video = Some sn \<and> snippet_publishedAt sn = Some p
             \<and> publish_date r = take 10 p
             \<and> tags r = (case snippet_tags sn of None \<Rightarrow> '''' | Some ts \<Rightarrow> str_join '','' ts)
             \<and> description r
                 = map (\<lambda>c. if c = CHR 0x0A then CHR '' '' else c)
                     (case snippet_description sn of None \<Rightarrow> '''' | Some d \<Rightarrow> d)
             \<and> transcript r = description r \<and> content r = description r))"
proof (intro conjI impI allI)
  assume "required_present video"
  then obtain r where r: "process_video_data video = Inr r"
    by (auto simp: process_video_data_required)
  from flattened_fields [OF r] r
  show "\<exists>r sn p. process_video_data video = Inr r
         \<and> video_json_snippet video = Some sn \<and> snippet_publishedAt sn = Some p
         \<and> publish_date r = take 10 p
         \<and> tags r = (case snippet_tags sn of None \<Rightarrow> '''' | Some ts \<Rightarrow> str_join '','' ts)
         \<and> description r
             = map (\<lambda>c. if c = CHR 0x0A then CHR '' '' else c)
                 (case snippet_description sn of None \<Rightarrow> '''' | Some d \<Rightarrow> d)
         \<and> transcript r = description r \<and> content r = description r"
    by blast
next
  fix r
  assume r: "process_video_data video = Inr r"
  then show "required_present video"
    by (auto simp: process_video_data_required)
  from flattened_fields [OF r]
  show "\<exists>sn p. video_json_snippet video = Some sn \<and> snippet_publishedAt sn = Some p
             \<and> publish_date r = take 10 p
             \<and> tags r = (case snippet_tags sn of None \<Rightarrow> '''' | Some ts \<Rightarrow> str_join '','' ts)
             \<and> description r
                 = map (\<lambda>c. if c = CHR 0x0A then CHR '' '' else c)
                     (case snippet_description sn of None \<Rightarrow> '''' | Some d \<Rightarrow> d)
             \<and> transcript r = description r \<and> content r = description r" .
qed

theorem process_video_data_fields_witness:
  "required_present sample_video
   \<and> process_video_data sample_video = Inr sample_record
   \<and> publish_date sample_record = take 10 ''2024-01-02T03:04:05Z''
   \<and> tags sample_record = ''a,b''
   \<and> description sample_record = ''x y''
   \<and> transcript sample_record = ''x y'' \<and> content sample_record = ''x y''"
  using process_video_data_fields [of sample_video] sample_video_required process_sample_video
  by (simp add: sample_record_def)

text \<open>
  C10. In every record the flattening produces, \<open>url\<close> is
  \<open>https://www.youtube.com/watch?v=\<close> followed by the record's \<open>video_id\<close>.
\<close>

theorem process_video_data_url:
  "process_video_data video = Inr r \<Longrightarrow>
   url r = ''https://www.youtube.com/watch?v='' @ video_id r"
  by (elim process_video_data_Inr) simp

theorem process_video_data_url_witness:
  "process_video_data sample_video = Inr sample_record
   \<and> url sample_record = ''https://www.youtube.com/watch?v='' @ video_id sample_record"
  using process_video_data_url [OF process_sample_video] process_sample_video
  by simp

section \<open>Properties of the fetcher\<close>

lemma py_range_length: "length (py_range i n 50) = (n - i + 49) div 50"
proof (induction i n "50::nat" rule: py_range.induct)
  case (1 i stop)
  show ?case
  proof (cases "i < stop")
    case True
    then have "stop - i + 49 = (stop - (i + 50) + 49) + 50 \<or> stop - (i + 50) = 0"
      by linarith
    with True "1" show ?thesis
      by (subst py_range.simps) (auto simp: div_add_self2)
  next
    case False
    then show ?thesis
      by (subst py_range.simps) simp
  qed
qed

lemma py_range_bound: "j \<in> set (py_range i n 50) \<Longrightarrow> j < n"
proof (induction i n "50::nat" rule: py_range.induct)
  case (1 i stop)
  from "1.prems" show ?case
    by (subst (asm) py_range.simps) (use "1.hyps" in \<open>auto split: if_splits\<close>)
qed

lemma concat_batches_from:
  "concat (map (batch_at ids) (py_range i (length ids) 50)) = drop i ids"
proof (induction i "length ids" "50::nat" rule: py_range.induct)
  case (1 i)
  show ?case
  proof (cases "i < length ids")
    case True
    have "drop (i + 50) ids = drop 50 (drop i ids)"
      by (simp add: add.commute)
    then have "batch_at ids i @ drop (i + 50) ids = drop i ids"
      by (simp only: batch_at_def append_take_drop_id)
    with True "1" show ?thesis
      by (subst py_range.simps) simp
  next
    case False
    then show ?thesis
      by (subst py_range.simps) simp
  qed
qed

lemma batches_length: "length (batches ids) = (length ids + 49) div 50"
  by (simp add: batches_def py_range_length)

lemma batches_concat: "concat (batches ids) = ids"
  by (simp add: batches_def concat_batches_from)

lemma batches_size: "b \<in> set (batches ids) \<Longrightarrow> b \<noteq> [] \<and> length b \<le> 50"
  by (auto simp: batches_def batch_at_def dest: py_range_bound)

lemma process_items_flattened:
  "process_items vs acc = Inr vd \<Longrightarrow> vd = acc @ flattened vs"
proof (induction vs arbitrary: acc)
  case Nil
  then show ?case by simp
next
  case (Cons v vs)
  then show ?case
    by (cases "process_video_data v") (auto dest: Cons.IH)
qed

lemma details_loop_requests:
  "details_loop api ids is st = (st', ending) \<Longrightarrow>
   \<exists>j\<le>length is. requests st' = requests st @ map (\<lambda>i. str_join '','' (batch_at ids i)) (take j is)
      \<and> (ending = None \<longrightarrow> j = length is)"
proof (induction "is" arbitrary: st)
  case Nil
  then show ?case by auto
next
  case (Cons i rest)
  let ?req = "str_join '','' (batch_at ids i)"
  let ?st1 = "st\<lparr>requests := requests st @ [?req]\<rparr>"
  have step: "\<exists>j\<le>length (i # rest).
         requests st' = requests st @ map (\<lambda>i. str_join '','' (batch_at ids i)) (take j (i # rest))
         \<and> (ending = None \<longrightarrow> j = length (i # rest))"
    if run: "details_loop api ids rest st2 = (st', ending)"
      and req: "requests st2 = requests st @ [?req]" for st2
  proof -
    from Cons.IH [OF run] obtain j where j: "j \<le> length rest"
      "requests st' = requests st2 @ map (\<lambda>i. str_join '','' (batch_at ids i)) (take j rest)"
      "ending = None \<longrightarrow> j = length rest"
      by blast
    show ?thesis
      by (rule exI [of _ "Suc j"]) (use j req in simp)
  qed
  show ?case
  proof (cases "api (length (requests st)) ?req")
    case (Raises_HttpError e)
    with Cons.prems show ?thesis
      by (intro step [of "?st1\<lparr>shown := shown ?st1 @ [Error_getting_video_details e]\<rparr>"])
         (simp_all add: Let_def)
  next
    case (Returns r)
    show ?thesis
    proof (cases "videos_items r")
      case None
      with Returns Cons.prems show ?thesis
        by (intro step [of "?st1\<lparr>shown := shown ?st1 @ [Warning_no_video_details (batch_at ids i)]\<rparr>"])
           (simp_all add: Let_def)
    next
      case (Some vs)
      show ?thesis
      proof (cases vs)
        case Nil
        with Some Returns Cons.prems show ?thesis
          by (intro step [of "?st1\<lparr>shown := shown ?st1 @ [Warning_no_video_details (batch_at ids i)]\<rparr>"])
             (simp_all add: Let_def)
      next
        case (Cons v vs')
        show ?thesis
        proof (cases "process_items (v # vs') (videos_data st)")
          case (Inl e)
          with Cons Some Returns Cons.prems have "st' = ?st1" "ending = Some e"
            by (simp_all add: Let_def)
          then show ?thesis
            by (intro exI [of _ 1]) simp
        next
          case (Inr vd)
          with Cons Some Returns Cons.prems show ?thesis
            by (intro step [of "?st1\<lparr>videos_data := vd\<rparr>"]) (simp_all add: Let_def)
        qed
      qed
    qed
  qed
qed


lemma details_loop_result:
  "details_loop api ids is st = (st', None) \<Longrightarrow>
   videos_data st' = videos_data st
       @ concat (map (batch_records api) (enumerate (length (requests st)) (map (batch_at ids) is)))
   \<and> shown st' = shown st
       @ concat (map (batch_messages api) (enumerate (length (requests st)) (map (batch_at ids) is)))"
proof (induction "is" arbitrary: st)
  case Nil
  then show ?case by simp
next
  case (Cons i rest)
  let ?n = "length (requests st)"
  let ?b = "batch_at ids i"
  let ?req = "str_join '','' ?b"
  let ?st1 = "st\<lparr>requests := requests st @ [?req]\<rparr>"
  let ?tail = "enumerate (Suc ?n) (map (batch_at ids) rest)"
  have step: "videos_data st' = videos_data st
         @ concat (map (batch_records api) (enumerate ?n (map (batch_at ids) (i # rest))))
       \<and> shown st' = shown st
         @ concat (map (batch_messages api) (enumerate ?n (map (batch_at ids) (i # rest))))"
    if run: "details_loop api ids rest st2 = (st', None)"
      and req: "length (requests st2) = Suc ?n"
      and vd: "videos_data st2 = videos_data st @ batch_records api (?n, ?b)"
      and sh: "shown st2 = shown st @ batch_messages api (?n, ?b)" for st2
    using Cons.IH [OF run] req vd sh by simp
  show ?case
  proof (cases "api ?n ?req")
    case (Raises_HttpError e)
    with Cons.prems show ?thesis
      by (intro step [of "?st1\<lparr>shown := shown ?st1 @ [Error_getting_video_details e]\<rparr>"])
         (simp_all add: Let_def batch_records_def batch_messages_def)
  next
    case (Returns r)
    show ?thesis
    proof (cases "videos_items r")
      case None
      with Returns Cons.prems show ?thesis
        by (intro step [of "?st1\<lparr>shown := shown ?st1 @ [Warning_no_video_details ?b]\<rparr>"])
           (simp_all add: Let_def batch_records_def batch_messages_def)
    next
      case (Some vs)
      show ?thesis
      proof (cases vs)
        case Nil
        with Some Returns Cons.prems show ?thesis
          by (intro step [of "?st1\<lparr>shown := shown ?st1 @ [Warning_no_video_details ?b]\<rparr>"])
             (simp_all add: Let_def batch_records_def batch_messages_def)
      next
        case (Cons v vs')
        show ?thesis
        proof (cases "process_items (v # vs') (videos_data st)")
          case (Inl e)
          with Cons Some Returns Cons.prems show ?thesis
            by (simp add: Let_def)
        next
          case (Inr vd)
          from process_items_flattened [OF Inr]
          have vd: "vd = videos_data st @ flattened (v # vs')" .
          from Inr Cons Some Returns Cons.prems show ?thesis
            by (intro step [of "?st1\<lparr>videos_data := vd\<rparr>"])
               (simp_all add: Let_def batch_records_def batch_messages_def vd
                  del: flattened.simps process_items.simps)
        qed
      qed
    qed
  qed
qed

lemma get_video_details_requests:
  "\<exists>j\<le>length (batches ids).
     fst (get_video_details api ids) = map (str_join '','') (take j (batches ids))
     \<and> ((\<exists>recs. snd (snd (get_video_details api ids)) = Inr recs) \<longrightarrow> j = length (batches ids))"
proof -
  let ?st0 = "\<lparr>requests = [], shown = [], videos_data = []\<rparr>"
  obtain st' ending where run:
    "details_loop api ids (py_range 0 (length ids) 50) ?st0 = (st', ending)"
    by (cases "details_loop api ids (py_range 0 (length ids) 50) ?st0") auto
  from details_loop_requests [OF run] obtain j where j:
    "j \<le> length (py_range 0 (length ids) 50)"
    "requests st' = map (\<lambda>i. str_join '','' (batch_at ids i)) (take j (py_range 0 (length ids) 50))"
    "ending = None \<longrightarrow> j = length (py_range 0 (length ids) 50)"
    by auto
  show ?thesis
    by (rule exI [of _ j])
       (use j run in \<open>auto simp: get_video_details_def batches_def take_map comp_def
                          split: option.splits\<close>)
qed

lemma process_items_complete:
  "list_all required_present vs \<Longrightarrow> \<exists>vd. process_items vs acc = Inr vd"
proof (induction vs arbitrary: acc)
  case Nil
  show ?case by simp
next
  case (Cons v vs)
  then obtain r where "process_video_data v = Inr r"
    by (auto simp: process_video_data_required)
  with Cons show ?case by simp
qed

lemma details_loop_complete:
  assumes "payloads_complete api"
  shows "\<exists>st'. details_loop api ids is st = (st', None)"
proof (induction "is" arbitrary: st)
  case Nil
  show ?case by simp
next
  case (Cons i rest)
  let ?req = "str_join '','' (batch_at ids i)"
  show ?case
  proof (cases "api (length (requests st)) ?req")
    case (Raises_HttpError e)
    then show ?thesis
      using Cons.IH by (simp add: Let_def)
  next
    case (Returns r)
    show ?thesis
    proof (cases "videos_items r")
      case None
      with Returns show ?thesis
        using Cons.IH by (simp add: Let_def)
    next
      case (Some vs)
      show ?thesis
      proof (cases vs)
        case Nil
        with Some Returns show ?thesis
          using Cons.IH by (simp add: Let_def)
      next
        case (Cons v vs')
        have "list_all required_present (v # vs')"
          using assms Returns Some Cons unfolding payloads_complete_def by blast
        from process_items_complete [OF this]
        obtain vd where "process_items (v # vs') (videos_data st) = Inr vd"
          by blast
        with Cons Some Returns show ?thesis
          using Cons.IH by (simp add: Let_def del: process_items.simps)
      qed
    qed
  qed
qed

lemma get_video_details_returns:
  assumes "get_video_details api ids = (reqs, msgs, Inr recs)"
  shows "reqs = map (str_join '','') (batches ids)
       \<and> recs = concat (map (batch_records api) (enumerate 0 (batches ids)))
       \<and> msgs = concat (map (batch_messages api) (enumerate 0 (batches ids)))"
proof -
  let ?st0 = "\<lparr>requests = [], shown = [], videos_data = []\<rparr>"
  obtain st' where run: "details_loop api ids (py_range 0 (length ids) 50) ?st0 = (st', None)"
    and st': "reqs = requests st'" "msgs = shown st'" "recs = videos_data st'"
    using assms
    by (cases "details_loop api ids (py_range 0 (length ids) 50) ?st0")
       (auto simp: get_video_details_def split: option.splits)
  have reqs: "reqs = map (str_join '','') (batches ids)"
    using get_video_details_requests [of ids api] assms by auto
  from details_loop_result [OF run]
  have "recs = concat (map (batch_records api) (enumerate 0 (batches ids)))"
    and "msgs = concat (map (batch_messages api) (enumerate 0 (batches ids)))"
    by (simp_all add: st' batches_def)
  with reqs show ?thesis by blast
qed

lemma get_video_details_complete:
  assumes "payloads_complete api"
  shows "get_video_details api ids
         = (map (str_join '','') (batches ids),
            concat (map (batch_messages api) (enumerate 0 (batches ids))),
            Inr (concat (map (batch_records api) (enumerate 0 (batches ids)))))"
proof -
  let ?st0 = "\<lparr>requests = [], shown = [], videos_data = []\<rparr>"
  from details_loop_complete [OF assms]
  obtain st' where run: "details_loop api ids (py_range 0 (length ids) 50) ?st0 = (st', None)"
    by blast
  then have "get_video_details api ids = (requests st', shown st', Inr (videos_data st'))"
    by (simp add: get_video_details_def)
  from this get_video_details_returns [OF this] show ?thesis
    by simp
qed

lemma flattened_complete:
  "list_all required_present vs \<Longrightarrow> length (flattened vs) = length vs"
proof (induction vs)
  case Nil
  show ?case by simp
next
  case (Cons v vs)
  then obtain r where "process_video_data v = Inr r"
    by (auto simp: process_video_data_required)
  with Cons show ?case by simp
qed

lemma sample_payloads_complete:
  "payloads_complete first_fails_api" "payloads_complete second_fails_api"
  by (simp_all add: payloads_complete_def first_fails_api_def second_fails_api_def
        sample_video_required split: if_splits)

lemma first_fails_run:
  "get_video_details first_fails_api (replicate 51 ''v'')
   = ([str_join '','' (replicate 50 ''v''), ''v''],
      [Error_getting_video_details ''quotaExceeded''],
      Inr [sample_record])"
  by code_simp

lemma second_fails_run:
  "get_video_details second_fails_api (replicate 101 ''v'')
   = ([str_join '','' (replicate 50 ''v''), str_join '','' (replicate 50 ''v''), ''v''],
      [Error_getting_video_details ''quotaExceeded''],
      Inr [sample_record, sample_record])"
  by code_simp

text \<open>
  C4, as stated, fails: of 51 identifiers there are two batches, but when the answer to
  the first request holds a payload without \<open>statistics\<close>, the flattening raises
  \<open>KeyError\<close> out of \<open>get_video_details\<close> and the request of the second batch is
  never issued.
\<close>

theorem get_video_details_aborted_counterexample:
  "length (batches (replicate 51 ''v'')) = 2
   \<and> get_video_details missing_statistics_api (replicate 51 ''v'')
       = ([str_join '','' (replicate 50 ''v'')], [], Inl (KeyError ''statistics''))"
  by code_simp

text \<open>
  C4, amended. The batches of \<open>M\<close> identifiers are \<open>ceil(M/50) = (M + 49) div 50\<close>
  many, each non-empty and of at most 50 identifiers, and their concatenation is the
  input. When every payload answered has what the flattening requires,
  \<open>get_video_details\<close> returns and has issued exactly one request for each batch, in
  order; so it has whenever it returns. In every run the requests issued are those of
  the first batches, one for each, up to the batch whose payload made the flattening
  raise.
\<close>

theorem get_video_details_batches:
  "length (batches ids) = (length ids + 49) div 50
   \<and> (\<forall>b\<in>set (batches ids). b \<noteq> [] \<and> length b \<le> 50)
   \<and> concat (batches ids) = ids
   \<and> (payloads_complete api \<longrightarrow>
        fst (get_video_details api ids) = map (str_join '','') (batches ids)
        \<and> (\<exists>recs. snd (snd (get_video_details api ids)) = Inr recs))
   \<and> (\<exists>j\<le>length (batches ids).
         fst (get_video_details api ids) = map (str_join '','') (take j (batches ids)))
   \<and> (\<forall>recs. snd (snd (get_video_details api ids)) = Inr recs \<longrightarrow>
         fst (get_video_details api ids) = map (str_join '','') (batches ids))"
proof (intro conjI impI)
  show "length (batches ids) = (length ids + 49) div 50"
    by (rule batches_length)
  show "\<forall>b\<in>set (batches ids). b \<noteq> [] \<and> length b \<le> 50"
    using batches_size by blast
  show "concat (batches ids) = ids"
    by (rule batches_concat)
  from get_video_details_requests [of ids api]
  show "\<exists>j\<le>length (batches ids).
         fst (get_video_details api ids) = map (str_join '','') (take j (batches ids))"
    by blast
  from get_video_details_requests [of ids api]
  show "\<forall>recs. snd (snd (get_video_details api ids)) = Inr recs \<longrightarrow>
         fst (get_video_details api ids) = map (str_join '','') (batches ids)"
    by auto
next
  assume "payloads_complete api"
  from get_video_details_complete [OF this, of ids]
  show "fst (get_video_details api ids) = map (str_join '','') (batches ids)"
    and "\<exists>recs. snd (snd (get_video_details api ids)) = Inr recs"
    by simp_all
qed

theorem get_video_details_batches_witness:
  "payloads_complete first_fails_api
   \<and> length (batches (replicate 51 ''v'')) = 2
   \<and> concat (batches (replicate 51 ''v'')) = replicate 51 ''v''
   \<and> fst (get_video_details first_fails_api (replicate 51 ''v''))
       = map (str_join '','') (batches (replicate 51 ''v''))
   \<and> get_video_details first_fails_api (replicate 51 ''v'')
       = ([str_join '','' (replicate 50 ''v''), ''v''],
          [Error_getting_video_details ''quotaExceeded''],
          Inr [sample_record])"
  using get_video_details_batches [of "replicate 51 ''v''" first_fails_api]
        sample_payloads_complete(1) first_fails_run
  by simp

text \<open>
  C6, as stated, fails: with three batches, the first answered with the sample payload,
  the second failing with \<open>HttpError\<close> and the third answered with a payload without
  \<open>statistics\<close>, the error of the second batch is reported and the third request is
  issued, but the flattening then raises \<open>KeyError\<close> and the record of the first,
  successful batch is not returned.
\<close>

theorem get_video_details_lost_records_counterexample:
  "get_video_details lost_records_api (replicate 101 ''v'')
     = ([str_join '','' (replicate 50 ''v''), str_join '','' (replicate 50 ''v''), ''v''],
        [Error_getting_video_details ''quotaExceeded''],
        Inl (KeyError ''statistics''))
   \<and> batch_records lost_records_api (0, replicate 50 ''v'') = [sample_record]"
  by code_simp

text \<open>
  C6, amended. When every payload answered has what the flattening requires,
  \<open>get_video_details\<close> returns, whichever requests fail with \<open>HttpError\<close>: it has
  issued exactly one request for each batch, also for a failed one (no retry); the
  records returned are, batch by batch and in order, one for every payload of the
  answers, a batch whose request failed contributing none; and what is shown is, batch
  by batch, the error of a failed request or the warning of an answer without items.
  Whenever it returns, the same holds of its result.
\<close>

theorem get_video_details_failed_batch:
  "(payloads_complete api \<longrightarrow>
      get_video_details api ids
        = (map (str_join '','') (batches ids),
           concat (map (batch_messages api) (enumerate 0 (batches ids))),
           Inr (concat (map (batch_records api) (enumerate 0 (batches ids)))))
      \<and> (\<forall>k<length (batches ids). \<forall>r vs.
            api k (str_join '','' (batches ids ! k)) = Returns r \<longrightarrow> videos_items r = Some vs \<longrightarrow>
              length (batch_records api (k, batches ids ! k)) = length vs))
   \<and> (\<forall>reqs msgs recs. get_video_details api ids = (reqs, msgs, Inr recs) \<longrightarrow>
        reqs = map (str_join '','') (batches ids)
        \<and> recs = concat (map (batch_records api) (enumerate 0 (batches ids)))
        \<and> msgs = concat (map (batch_messages api) (enumerate 0 (batches ids))))
   \<and> (\<forall>k e. api k (str_join '','' (batches ids ! k)) = Raises_HttpError e \<longrightarrow>
        batch_records api (k, batches ids ! k) = []
        \<and> batch_messages api (k, batches ids ! k) = [Error_getting_video_details e]
        \<and> (k < length (batches ids) \<longrightarrow>
             Error_getting_video_details e
               \<in> set (concat (map (batch_messages api) (enumerate 0 (batches ids))))))"
proof (intro conjI impI allI)
  assume complete: "payloads_complete api"
  show "get_video_details api ids
        = (map (str_join '','') (batches ids),
           concat (map (batch_messages api) (enumerate 0 (batches ids))),
           Inr (concat (map (batch_records api) (enumerate 0 (batches ids)))))"
    by (rule get_video_details_complete [OF complete])
  fix k r vs
  assume "api k (str_join '','' (batches ids ! k)) = Returns r" "videos_items r = Some vs"
  moreover from this complete have "list_all required_present vs"
    unfolding payloads_complete_def by blast
  ultimately show "length (batch_records api (k, batches ids ! k)) = length vs"
    by (simp add: batch_records_def flattened_complete)
next
  fix reqs msgs recs
  assume "get_video_details api ids = (reqs, msgs, Inr recs)"
  from get_video_details_returns [OF this]
  show "reqs = map (str_join '','') (batches ids)"
    and "recs = concat (map (batch_records api) (enumerate 0 (batches ids)))"
    and "msgs = concat (map (batch_messages api) (enumerate 0 (batches ids)))"
    by simp_all
next
  fix k e
  assume e: "api k (str_join '','' (batches ids ! k)) = Raises_HttpError e"
  then show "batch_records api (k, batches ids ! k) = []"
    and shown: "batch_messages api (k, batches ids ! k) = [Error_getting_video_details e]"
    by (simp_all add: batch_records_def batch_messages_def)
  assume "k < length (batches ids)"
  then have "(k, batches ids ! k) \<in> set (enumerate 0 (batches ids))"
    by (auto simp: in_set_enumerate_eq)
  with shown show "Error_getting_video_details e
               \<in> set (concat (map (batch_messages api) (enumerate 0 (batches ids))))"
    by force
qed

theorem get_video_details_failed_batch_witness:
  "payloads_complete second_fails_api
   \<and> get_video_details second_fails_api (replicate 101 ''v'')
     = ([str_join '','' (replicate 50 ''v''), str_join '','' (replicate 50 ''v''), ''v''],
        [Error_getting_video_details ''quotaExceeded''],
        Inr [sample_record, sample_record])
   \<and> [str_join '','' (replicate 50 ''v''), str_join '','' (replicate 50 ''v''), ''v'']
       = map (str_join '','') (batches (replicate 101 ''v''))
   \<and> [sample_record, sample_record]
       = concat (map (batch_records second_fails_api) (enumerate 0 (batches (replicate 101 ''v''))))
   \<and> [Error_getting_video_details ''quotaExceeded'']
       = concat (map (batch_messages second_fails_api) (enumerate 0 (batches (replicate 101 ''v''))))
   \<and> second_fails_api 1 (str_join '','' (batches (replicate 101 ''v'') ! 1))
       = Raises_HttpError ''quotaExceeded''
   \<and> batch_records second_fails_api (1, batches (replicate 101 ''v'') ! 1) = []"
  using get_video_details_failed_batch [of second_fails_api "replicate 101 ''v''"]
        sample_payloads_complete(2) second_fails_run
  by (simp add: second_fails_api_def)

section \<open>Properties of the CSV export\<close>

text \<open>
  The reader sees a file line by line, and a row of the writer may span several lines.
  \<open>parse_chars\<close> is the automaton on the characters of a part of a line; \<open>sim x e e'\<close>
  says that reading the text \<open>x\<close>, from any point of a file at which the automaton
  has come to \<open>e\<close>, leads to a point at which it has come to \<open>e'\<close>, whatever
  follows \<open>x\<close>.
\<close>

fun parse_chars :: "reader \<Rightarrow> string \<Rightarrow> csv_error + reader" where
  "parse_chars rd [] = Inr rd"
| "parse_chars rd (c # cs) =
     (case parse_process_char rd (Ch c) of
        Inl e \<Rightarrow> Inl e
      | Inr rd' \<Rightarrow> parse_chars rd' cs)"

lemma parse_chars_append:
  "parse_chars rd (a @ b) =
     (case parse_chars rd a of Inl e \<Rightarrow> Inl e | Inr rd' \<Rightarrow> parse_chars rd' b)"
  by (induction a arbitrary: rd) (auto split: sum.splits)

lemma parse_line_chars:
  "parse_line rd cs =
     (case parse_chars rd cs of Inl e \<Rightarrow> Inl e | Inr rd' \<Rightarrow> parse_process_char rd' EOL)"
  by (induction cs arbitrary: rd) (auto split: sum.splits)

abbreviation St :: "parser_state \<Rightarrow> string \<Rightarrow> string list \<Rightarrow> reader" where
  "St s b fs \<equiv> \<lparr> parse_state = s, parse_field = b, parse_fields = fs \<rparr>"

definition prepend ::
  "string list \<Rightarrow> csv_error + string list list \<Rightarrow> csv_error + string list list" where
  "prepend row r = (case r of Inl e \<Rightarrow> Inl e | Inr rows \<Rightarrow> Inr (row # rows))"

definition sim :: "string \<Rightarrow> reader \<Rightarrow> reader \<Rightarrow> bool" where
  "sim x e e' \<longleftrightarrow>
     (\<forall>rd cur rest. parse_chars rd cur = Inr e \<longrightarrow>
        (\<exists>rd' cur'. parse_chars rd' cur' = Inr e' \<and>
           reader_rows rd (file_lines_from cur (x @ rest))
             = reader_rows rd' (file_lines_from cur' rest)))"

lemmas parse_defs =
  parse_process_char_def start_field_def end_of_line_def parse_save_field_def
  parse_add_char_def

lemma sim_refl: "sim [] e e"
  unfolding sim_def by auto

lemma sim_trans:
  assumes "sim x e e'" and "sim y e' e''"
  shows "sim (x @ y) e e''"
  unfolding sim_def
proof (intro allI impI)
  fix rd cur rest
  assume "parse_chars rd cur = Inr e"
  with assms(1) obtain rd' cur' where
    1: "parse_chars rd' cur' = Inr e'" and
    2: "reader_rows rd (file_lines_from cur (x @ (y @ rest)))
          = reader_rows rd' (file_lines_from cur' (y @ rest))"
    unfolding sim_def by blast
  from assms(2) 1 obtain rd'' cur'' where
    3: "parse_chars rd'' cur'' = Inr e''" and
    4: "reader_rows rd' (file_lines_from cur' (y @ rest))
          = reader_rows rd'' (file_lines_from cur'' rest)"
    unfolding sim_def by blast
  from 2 3 4 show "\<exists>rd' cur'. parse_chars rd' cur' = Inr e'' \<and>
      reader_rows rd (file_lines_from cur ((x @ y) @ rest))
        = reader_rows rd' (file_lines_from cur' rest)"
    by auto
qed

lemma flf_plain:
  "c \<noteq> LF \<Longrightarrow> c \<noteq> CR \<Longrightarrow> file_lines_from cur (c # rest) = file_lines_from (cur @ [c]) rest"
  by (cases rest) auto

lemma flf_LF: "file_lines_from cur (LF # rest) = (cur @ [LF]) # file_lines_from [] rest"
  by (cases rest) auto

lemma flf_CRLF:
  "file_lines_from cur (CR # LF # rest) = (cur @ [CR, LF]) # file_lines_from [] rest"
  by simp

lemma flf_CR:
  "rest = [] \<or> hd rest \<noteq> LF \<Longrightarrow>
     file_lines_from cur (CR # rest) = (cur @ [CR]) # file_lines_from [] rest"
  by (cases rest) auto

lemma reader_rows_continue:
  "parse_line rd line = Inr e' \<Longrightarrow> parse_state e' \<noteq> START_RECORD \<Longrightarrow>
     reader_rows rd (line # lines) = reader_rows e' lines"
  by simp

lemma reader_rows_emit:
  "parse_line rd line = Inr e' \<Longrightarrow> parse_state e' = START_RECORD \<Longrightarrow>
     reader_rows rd (line # lines) = prepend (parse_fields e') (reader_rows parse_reset lines)"
  by (simp add: prepend_def)

lemma sim_plain:
  assumes "c \<noteq> LF" "c \<noteq> CR" "parse_process_char e (Ch c) = Inr e'"
  shows "sim [c] e e'"
  unfolding sim_def
proof (intro allI impI)
  fix rd cur rest
  assume "parse_chars rd cur = Inr e"
  hence "parse_chars rd (cur @ [c]) = Inr e'"
    using assms(3) by (simp add: parse_chars_append)
  moreover have "file_lines_from cur ([c] @ rest) = file_lines_from (cur @ [c]) rest"
    using flf_plain [OF assms(1,2)] by simp
  ultimately show "\<exists>rd' cur'. parse_chars rd' cur' = Inr e' \<and>
      reader_rows rd (file_lines_from cur ([c] @ rest))
        = reader_rows rd' (file_lines_from cur' rest)"
    by metis
qed

lemma sim_newline_quoted:
  assumes c: "c = LF \<or> c = CR"
  shows "sim [c] (St IN_QUOTED_FIELD b fs) (St IN_QUOTED_FIELD (b @ [c]) fs)"
  unfolding sim_def
proof (intro allI impI)
  fix rd cur rest
  let ?e = "St IN_QUOTED_FIELD b fs"
  let ?e' = "St IN_QUOTED_FIELD (b @ [c]) fs"
  assume eff: "parse_chars rd cur = Inr ?e"
  have line1: "parse_line rd (cur @ [c]) = Inr ?e'"
    using eff c by (auto simp: parse_line_chars parse_chars_append parse_defs)
  have "reader_rows rd (file_lines_from cur (c # rest))
          = reader_rows ?e' (file_lines_from [] rest)"
  proof (cases "c = LF")
    case True
    then show ?thesis
      using reader_rows_continue [OF line1] by (simp add: flf_LF)
  next
    case False
    hence cr: "c = CR" using c by simp
    show ?thesis
    proof (cases "rest = [] \<or> hd rest \<noteq> LF")
      case True
      then show ?thesis
        using reader_rows_continue [OF line1] cr by (simp add: flf_CR)
    next
      case False
      then obtain cs where rest: "rest = LF # cs" by (cases rest) auto
      let ?e2 = "St IN_QUOTED_FIELD (b @ [CR, LF]) fs"
      have l2: "parse_line rd (cur @ [CR, LF]) = Inr ?e2"
        using eff by (simp add: parse_line_chars parse_chars_append parse_defs)
      have l3: "parse_line ?e' [LF] = Inr ?e2"
        using cr by (simp add: parse_defs)
      have "reader_rows rd (file_lines_from cur (c # rest))
              = reader_rows ?e2 (file_lines_from [] cs)"
        unfolding rest cr flf_CRLF using reader_rows_continue [OF l2] by simp
      also have "\<dots> = reader_rows ?e' (file_lines_from [] rest)"
        unfolding rest flf_LF using reader_rows_continue [OF l3] by simp
      finally show ?thesis .
    qed
  qed
  moreover have "parse_chars ?e' [] = Inr ?e'" by simp
  ultimately show "\<exists>rd' cur'. parse_chars rd' cur' = Inr ?e' \<and>
      reader_rows rd (file_lines_from cur ([c] @ rest))
        = reader_rows rd' (file_lines_from cur' rest)"
    by (metis append_Cons append_Nil)
qed

lemma sim_quoted_char:
  "sim (if c = quotechar then [quotechar, quotechar] else [c])
       (St IN_QUOTED_FIELD b fs) (St IN_QUOTED_FIELD (b @ [c]) fs)"
proof (cases "c = quotechar")
  case True
  have "sim [quotechar] (St IN_QUOTED_FIELD b fs) (St QUOTE_IN_QUOTED_FIELD b fs)"
    by (rule sim_plain) (simp_all add: parse_defs)
  moreover have "sim [quotechar] (St QUOTE_IN_QUOTED_FIELD b fs)
                   (St IN_QUOTED_FIELD (b @ [quotechar]) fs)"
    by (rule sim_plain) (simp_all add: parse_defs)
  ultimately show ?thesis
    using True sim_trans by fastforce
next
  case False
  show ?thesis
  proof (cases "c = LF \<or> c = CR")
    case True
    then show ?thesis using False sim_newline_quoted by simp
  next
    case nl: False
    have "sim [c] (St IN_QUOTED_FIELD b fs) (St IN_QUOTED_FIELD (b @ [c]) fs)"
      using False nl by (intro sim_plain) (simp_all add: parse_defs)
    then show ?thesis using False by simp
  qed
qed

lemma sim_doubled:
  "sim (doubled f) (St IN_QUOTED_FIELD b fs) (St IN_QUOTED_FIELD (b @ f) fs)"
proof (induction f arbitrary: b)
  case Nil
  show ?case by (simp add: doubled_def sim_refl)
next
  case (Cons c f)
  have "sim ((if c = quotechar then [quotechar, quotechar] else [c]) @ doubled f)
          (St IN_QUOTED_FIELD b fs) (St IN_QUOTED_FIELD ((b @ [c]) @ f) fs)"
    by (rule sim_trans [OF sim_quoted_char Cons.IH])
  then show ?case by (simp add: doubled_def)
qed

lemma sim_quoted_field:
  assumes "s = START_RECORD \<or> s = START_FIELD"
  shows "sim ([quotechar] @ doubled f @ [quotechar]) (St s [] fs)
           (St QUOTE_IN_QUOTED_FIELD f fs)"
proof -
  have 1: "sim [quotechar] (St s [] fs) (St IN_QUOTED_FIELD [] fs)"
    using assms by (intro sim_plain) (auto simp: parse_defs)
  have 2: "sim (doubled f) (St IN_QUOTED_FIELD [] fs) (St IN_QUOTED_FIELD f fs)"
    using sim_doubled [of f "[]" fs] by simp
  have 3: "sim [quotechar] (St IN_QUOTED_FIELD f fs) (St QUOTE_IN_QUOTED_FIELD f fs)"
    by (intro sim_plain) (auto simp: parse_defs)
  show ?thesis
    by (rule sim_trans [OF 1 sim_trans [OF 2 3]])
qed

lemma sim_in_field:
  "\<not> quoted f \<Longrightarrow> sim f (St IN_FIELD b fs) (St IN_FIELD (b @ f) fs)"
proof (induction f arbitrary: b)
  case Nil
  show ?case by (simp add: sim_refl)
next
  case (Cons c f)
  have 1: "sim [c] (St IN_FIELD b fs) (St IN_FIELD (b @ [c]) fs)"
    using Cons.prems by (intro sim_plain) (auto simp: parse_defs quoted_def)
  have 2: "sim f (St IN_FIELD (b @ [c]) fs) (St IN_FIELD ((b @ [c]) @ f) fs)"
    using Cons.prems by (intro Cons.IH) (simp add: quoted_def)
  show ?case using sim_trans [OF 1 2] by simp
qed

definition after_field :: "parser_state \<Rightarrow> string \<Rightarrow> parser_state" where
  "after_field s f =
     (if quoted f then QUOTE_IN_QUOTED_FIELD else if f = [] then s else IN_FIELD)"

lemma sim_join_append:
  assumes s: "s = START_RECORD \<or> s = START_FIELD"
  shows "sim (join_append f) (St s [] fs) (St (after_field s f) f fs)"
proof (cases "quoted f")
  case True
  then show ?thesis
    using sim_quoted_field [OF s] by (simp add: join_append_def after_field_def)
next
  case False
  show ?thesis
  proof (cases f)
    case Nil
    then show ?thesis using False by (simp add: join_append_def after_field_def sim_refl)
  next
    case (Cons c f')
    have 1: "sim [c] (St s [] fs) (St IN_FIELD [c] fs)"
      using False s Cons by (intro sim_plain) (auto simp: parse_defs quoted_def)
    have 2: "sim f' (St IN_FIELD [c] fs) (St IN_FIELD ([c] @ f') fs)"
      using False Cons by (intro sim_in_field) (simp add: quoted_def)
    show ?thesis
      using sim_trans [OF 1 2] False Cons by (simp add: join_append_def after_field_def)
  qed
qed

lemma sim_delimiter:
  assumes "s \<noteq> IN_QUOTED_FIELD" "s \<noteq> EAT_CRNL"
  shows "sim [delimiter] (St s b fs) (St START_FIELD [] (fs @ [b]))"
  using assms by (intro sim_plain) (cases s; simp add: parse_defs)+

lemma row_end:
  assumes eff: "parse_chars rd cur = Inr (St s b fs)"
      and s: "s = START_FIELD \<or> s = IN_FIELD \<or> s = QUOTE_IN_QUOTED_FIELD"
  shows "reader_rows rd (file_lines_from cur (CR # LF # rest))
           = prepend (fs @ [b]) (reader_rows parse_reset (file_lines_from [] rest))"
proof -
  have "parse_line rd (cur @ [CR, LF]) = Inr (St START_RECORD [] (fs @ [b]))"
    using eff s by (auto simp: parse_line_chars parse_chars_append parse_defs)
  from reader_rows_emit [OF this] show ?thesis
    by (simp add: flf_CRLF)
qed

lemma row_tail:
  assumes "parse_chars rd cur = Inr (St s b fs)"
      and "s = START_FIELD \<or> s = IN_FIELD \<or> s = QUOTE_IN_QUOTED_FIELD
           \<or> (s = START_RECORD \<and> gs \<noteq> [])"
  shows "reader_rows rd (file_lines_from cur
           (concat (map (\<lambda>f. delimiter # join_append f) gs) @ CR # LF # rest))
           = prepend (fs @ b # gs) (reader_rows parse_reset (file_lines_from [] rest))"
  using assms
proof (induction gs arbitrary: rd cur s b fs)
  case Nil
  then show ?case using row_end [of rd cur s b fs rest] by simp
next
  case (Cons g gs)
  let ?tl = "concat (map (\<lambda>f. delimiter # join_append f) gs) @ CR # LF # rest"
  have s: "s \<noteq> IN_QUOTED_FIELD" "s \<noteq> EAT_CRNL" using Cons.prems(2) by auto
  have "sim ([delimiter] @ join_append g) (St s b fs)
          (St (after_field START_FIELD g) g (fs @ [b]))"
    by (rule sim_trans [OF sim_delimiter [OF s] sim_join_append]) simp
  with Cons.prems(1) obtain rd' cur' where
    eff': "parse_chars rd' cur' = Inr (St (after_field START_FIELD g) g (fs @ [b]))" and
    run: "reader_rows rd (file_lines_from cur (([delimiter] @ join_append g) @ ?tl))
            = reader_rows rd' (file_lines_from cur' ?tl)"
    unfolding sim_def by blast
  have "reader_rows rd' (file_lines_from cur' ?tl)
          = prepend ((fs @ [b]) @ g # gs) (reader_rows parse_reset (file_lines_from [] rest))"
    by (rule Cons.IH [OF eff']) (simp add: after_field_def)
  with run show ?case by simp
qed

lemma str_join_Cons:
  "str_join sep (x # xs) = x @ concat (map (\<lambda>y. sep @ y) xs)"
  by (induction xs arbitrary: x) auto

lemma read_writerow:
  "reader_rows parse_reset (file_lines_from [] (writerow row @ rest))
     = prepend row (reader_rows parse_reset (file_lines_from [] rest))"
proof (cases row)
  case Nil
  have "parse_line parse_reset [CR, LF] = Inr parse_reset"
    by (simp add: parse_defs parse_reset_def)
  from reader_rows_emit [OF this] show ?thesis
    using Nil by (simp add: writerow_def flf_CRLF parse_reset_def)
next
  case (Cons f gs)
  show ?thesis
  proof (cases "row = ['''']")
    case True
    have "sim ([quotechar] @ doubled [] @ [quotechar]) (St START_RECORD [] [])
            (St QUOTE_IN_QUOTED_FIELD [] [])"
      by (rule sim_quoted_field) simp
    moreover have "parse_chars parse_reset [] = Inr (St START_RECORD [] [])"
      by (simp add: parse_reset_def)
    ultimately obtain rd' cur' where
      eff': "parse_chars rd' cur' = Inr (St QUOTE_IN_QUOTED_FIELD [] [])" and
      run: "reader_rows parse_reset (file_lines_from []
              (([quotechar] @ doubled [] @ [quotechar]) @ CR # LF # rest))
              = reader_rows rd' (file_lines_from cur' (CR # LF # rest))"
      unfolding sim_def by blast
    from run row_end [OF eff'] True show ?thesis
      by (simp add: writerow_def doubled_def)
  next
    case False
    hence gs: "f = [] \<longrightarrow> gs \<noteq> []" using Cons by auto
    let ?tl = "concat (map (\<lambda>f. delimiter # join_append f) gs) @ CR # LF # rest"
    have "sim (join_append f) (St START_RECORD [] []) (St (after_field START_RECORD f) f [])"
      by (rule sim_join_append) simp
    moreover have "parse_chars parse_reset [] = Inr (St START_RECORD [] [])"
      by (simp add: parse_reset_def)
    ultimately obtain rd' cur' where
      eff': "parse_chars rd' cur' = Inr (St (after_field START_RECORD f) f [])" and
      run: "reader_rows parse_reset (file_lines_from [] (join_append f @ ?tl))
              = reader_rows rd' (file_lines_from cur' ?tl)"
      unfolding sim_def by blast
    have "reader_rows rd' (file_lines_from cur' ?tl)
            = prepend ([] @ f # gs) (reader_rows parse_reset (file_lines_from [] rest))"
      by (rule row_tail [OF eff']) (use gs in \<open>auto simp: after_field_def\<close>)
    with run have "reader_rows parse_reset (file_lines_from [] (join_append f @ ?tl))
            = prepend row (reader_rows parse_reset (file_lines_from [] rest))"
      using Cons by simp
    moreover have "writerow row @ rest = join_append f @ ?tl"
      using False Cons by (auto simp: writerow_def str_join_Cons comp_def)
    ultimately show ?thesis by simp
  qed
qed

lemma read_writerows:
  "reader_rows parse_reset (file_lines_from [] (writerows rows)) = Inr rows"
proof (induction rows)
  case Nil
  show ?case by (simp add: writerows_def parse_reset_def)
next
  case (Cons row rows)
  have "writerows (row # rows) = writerow row @ writerows rows"
    by (simp add: writerows_def)
  then show ?case
    using read_writerow [of row "writerows rows"] Cons.IH by (simp add: prepend_def)
qed

lemma read_back_writerows: "csv_reader (writerows rows) = Inr rows"
  by (simp add: csv_reader_def file_lines_def read_writerows)

lemma dict_to_list_zip:
  "zip fieldnames (dict_to_list r) =
     [(''title'', title r), (''video_id'', video_id r), (''url'', url r),
      (''view_count'', view_count r), (''like_count'', like_count r),
      (''comment_count'', comment_count r), (''publish_date'', publish_date r),
      (''duration_seconds'', py_str (duration_seconds r)),
      (''description'', description r), (''tags'', tags r),
      (''transcript'', transcript r), (''content'', content r)]"
  by (simp add: fieldnames_def dict_to_list_def)

lemma py_int_snoc: "py_int (ds @ [d]) = 10 * py_int ds + digit_val d"
  by (simp add: py_int_def)

lemma digit_val_char_of: "d < 10 \<Longrightarrow> digit_val (char_of (48 + d)) = int d"
  by (simp add: digit_val_def)

lemma py_int_digits: "py_int (digits n) = int n"
proof (induction n rule: digits.induct)
  case (1 n)
  show ?case
  proof (cases "n < 10")
    case True
    then show ?thesis
      by (subst digits.simps) (simp add: py_int_def digit_val_char_of)
  next
    case False
    have "py_int (digits n) = 10 * py_int (digits (n div 10)) + digit_val (char_of (48 + n mod 10))"
      using False by (subst digits.simps) (simp add: py_int_snoc)
    also have "\<dots> = 10 * int (n div 10) + int (n mod 10)"
      using False "1.IH" by (simp add: digit_val_char_of)
    also have "\<dots> = int n"
      by presburger
    finally show ?thesis .
  qed
qed

lemma py_int_py_str: "0 \<le> i \<Longrightarrow> py_int (py_str i) = i"
  by (simp add: py_str_def py_int_digits)

lemma sample_csv_written:
  "writerows (fieldnames # map dict_to_list [sample_record, quoting_record]) = sample_csv"
  by code_simp

text \<open>
  C8. \<open>export_to_csv\<close> writes, under the name it returns (the one given, or
  \<open>youtube_export_<timestamp>.csv\<close> when none is given), the header row with the twelve
  field names in the fixed order, followed by one row for each record, in order. Read
  back, the file gives the header and, for \<open>N\<close> records, \<open>N\<close> rows; the row of a
  record holds, under each name of the header, the text of that field of the record,
  whatever characters it contains. Everything in a CSV file is text:
  \<open>duration_seconds\<close>, an integer in the record, is read back as its decimal
  numeral, and \<^verbatim>\<open>int\<close> of that is the integer again.
\<close>

theorem export_to_csv_round_trip:
  "(export_to_csv now fs records filename = (name, fs') \<longrightarrow>
      name = (case filename of
                None \<Rightarrow> ''youtube_export_'' @ now @ ''.csv''
              | Some f \<Rightarrow> if f = [] then ''youtube_export_'' @ now @ ''.csv'' else f)
      \<and> fs' name = Some (writerows (fieldnames # map dict_to_list records)))
   \<and> csv_reader (writerows (fieldnames # map dict_to_list records))
       = Inr (fieldnames # map dict_to_list records)
   \<and> length (map dict_to_list records) = length records
   \<and> fieldnames = [''title'', ''video_id'', ''url'', ''view_count'', ''like_count'',
                   ''comment_count'', ''publish_date'', ''duration_seconds'',
                   ''description'', ''tags'', ''transcript'', ''content'']
   \<and> zip fieldnames (dict_to_list r) =
        [(''title'', title r), (''video_id'', video_id r), (''url'', url r),
         (''view_count'', view_count r), (''like_count'', like_count r),
         (''comment_count'', comment_count r), (''publish_date'', publish_date r),
         (''duration_seconds'', py_str (duration_seconds r)),
         (''description'', description r), (''tags'', tags r),
         (''transcript'', transcript r), (''content'', content r)]
   \<and> (0 \<le> duration_seconds r \<longrightarrow> py_int (py_str (duration_seconds r)) = duration_seconds r)"
proof (intro conjI impI)
  assume run: "export_to_csv now fs records filename = (name, fs')"
  then show "name = (case filename of
                None \<Rightarrow> ''youtube_export_'' @ now @ ''.csv''
              | Some f \<Rightarrow> if f = [] then ''youtube_export_'' @ now @ ''.csv'' else f)"
    by (auto simp: export_to_csv_def Let_def)
  from run show "fs' name = Some (writerows (fieldnames # map dict_to_list records))"
    by (auto simp: export_to_csv_def writerows_def Let_def)
next
  show "csv_reader (writerows (fieldnames # map dict_to_list records))
       = Inr (fieldnames # map dict_to_list records)"
    by (rule read_back_writerows)
  show "length (map dict_to_list records) = length records"
    by simp
  show "fieldnames = [''title'', ''video_id'', ''url'', ''view_count'', ''like_count'',
                   ''comment_count'', ''publish_date'', ''duration_seconds'',
                   ''description'', ''tags'', ''transcript'', ''content'']"
    by (rule fieldnames_def)
  show "zip fieldnames (dict_to_list r) =
        [(''title'', title r), (''video_id'', video_id r), (''url'', url r),
         (''view_count'', view_count r), (''like_count'', like_count r),
         (''comment_count'', comment_count r), (''publish_date'', publish_date r),
         (''duration_seconds'', py_str (duration_seconds r)),
         (''description'', description r), (''tags'', tags r),
         (''transcript'', transcript r), (''content'', content r)]"
    by (rule dict_to_list_zip)
next
  assume "0 \<le> duration_seconds r"
  then show "py_int (py_str (duration_seconds r)) = duration_seconds r"
    by (rule py_int_py_str)
qed

theorem export_to_csv_round_trip_witness:
  "fst (export_to_csv ''20240102_030405'' Map.empty [sample_record, quoting_record] None)
     = ''youtube_export_20240102_030405.csv''
   \<and> snd (export_to_csv ''20240102_030405'' Map.empty [sample_record, quoting_record] None)
       ''youtube_export_20240102_030405.csv'' = Some sample_csv
   \<and> csv_reader sample_csv
       = Inr [fieldnames, dict_to_list sample_record, dict_to_list quoting_record]
   \<and> dict_to_list quoting_record ! 0
       = ''say '' @ [quotechar] @ ''hi'' @ [quotechar, CR, LF] @ ''twice''
   \<and> dict_to_list sample_record ! 7 = ''3723''
   \<and> (0::int) \<le> duration_seconds sample_record
   \<and> py_int ''3723'' = duration_seconds sample_record"
proof -
  let ?run = "export_to_csv ''20240102_030405'' Map.empty [sample_record, quoting_record] None"
  note round_trip =
    export_to_csv_round_trip
      [where now = "''20240102_030405''" and fs = Map.empty
         and records = "[sample_record, quoting_record]" and filename = None
         and name = "fst ?run" and fs' = "snd ?run" and r = sample_record]
  have run: "?run = (fst ?run, snd ?run)"
    by simp
  have name: "fst ?run = ''youtube_export_20240102_030405.csv''"
    by (simp add: export_to_csv_def Let_def)
  have "snd ?run (fst ?run) = Some sample_csv"
    using round_trip run unfolding sample_csv_written by blast
  then have written: "snd ?run ''youtube_export_20240102_030405.csv'' = Some sample_csv"
    unfolding name .
  have "csv_reader sample_csv = Inr (fieldnames # map dict_to_list [sample_record, quoting_record])"
    using round_trip unfolding sample_csv_written by blast
  then have read: "csv_reader sample_csv
       = Inr [fieldnames, dict_to_list sample_record, dict_to_list quoting_record]"
    by simp
  have seconds: "duration_seconds sample_record = 3723"
    by (simp add: sample_record_def)
  have "py_str 3723 = ''3723''"
    by code_simp
  then have str: "py_str (duration_seconds sample_record) = ''3723''"
    unfolding seconds .
  have parsed: "py_int ''3723'' = duration_seconds sample_record"
    using round_trip seconds unfolding str by simp
  have title: "dict_to_list quoting_record ! 0
       = ''say '' @ [quotechar] @ ''hi'' @ [quotechar, CR, LF] @ ''twice''"
    by (simp add: dict_to_list_def quoting_record_def)
  have field: "dict_to_list sample_record ! 7 = ''3723''"
    using str by (simp add: dict_to_list_def)
  from name written read title field seconds parsed show ?thesis
    by simp
qed

section \<open>Properties of the entry points\<close>

text \<open>
  C9, as stated, fails in the dashboard: an empty input is not of the form of a channel
  identifier, and the resolver is not called for it.
\<close>

theorem dashboard_empty_input_counterexample:
  "\<not> is_channel_id '''' \<and> dashboard_find_channel no_channel_found '''' = ([], No_channel_entered)"
  by (simp add: is_channel_id_def dashboard_find_channel_def)

text \<open>
  C9, amended. An input that starts with \<open>UC\<close> and has length 24 is used as the channel
  identifier by both entry points, and the resolver is not called. For every other input
  the command line calls the resolver with it; the dashboard calls the resolver when the
  input is not empty, and stops before the step when it is.
\<close>

theorem find_channel_dispatch:
  "(is_channel_id c \<longrightarrow>
      cli_find_channel resolver c = ([], Some c)
      \<and> dashboard_find_channel resolver c = ([], Channel_id (Some c)))
   \<and> (\<not> is_channel_id c \<longrightarrow>
      cli_find_channel resolver c = ([c], resolver c)
      \<and> (c \<noteq> [] \<longrightarrow> dashboard_find_channel resolver c = ([c], Channel_id (resolver c)))
      \<and> (c = [] \<longrightarrow> dashboard_find_channel resolver c = ([], No_channel_entered)))"
  by (auto simp: cli_find_channel_def dashboard_find_channel_def is_channel_id_def)

theorem find_channel_dispatch_witness:
  "is_channel_id ''UCabcdefghijklmnopqrstuv''
   \<and> cli_find_channel no_channel_found ''UCabcdefghijklmnopqrstuv''
       = ([], Some ''UCabcdefghijklmnopqrstuv'')
   \<and> dashboard_find_channel no_channel_found ''UCabcdefghijklmnopqrstuv''
       = ([], Channel_id (Some ''UCabcdefghijklmnopqrstuv''))
   \<and> \<not> is_channel_id ''@samplechannel'' \<and> ''@samplechannel'' \<noteq> []
   \<and> cli_find_channel no_channel_found ''@samplechannel'' = ([''@samplechannel''], None)
   \<and> dashboard_find_channel no_channel_found ''@samplechannel''
       = ([''@samplechannel''], Channel_id None)"
  using find_channel_dispatch [of "''UCabcdefghijklmnopqrstuv''" no_channel_found]
        find_channel_dispatch [of "''@samplechannel''" no_channel_found]
  by (simp add: is_channel_id_def no_channel_found_def)

end
